theory Spec2Isabelle
  imports Complex_Main
begin

section \<open>Numbers of the program\<close>

text \<open>
  The program's numbers are JavaScript numbers, that is IEEE-754 doubles. A finite double is
  modelled by the real number it denotes. An arithmetic operator of the source is the exact
  operation followed by a rounding function, which is a parameter of the model (field
  \<open>rounding\<close> of the platform below). Two roundings are used: \<open>round_double\<close>, round to
  nearest with ties to even at 53 significant bits (what the program runs on; overflow to
  Infinity and gradual underflow are not modelled), and the identity, which is exact
  arithmetic. \<open>NaN\<close> is \<open>None\<close> where a value of the source can be \<open>NaN\<close>.
\<close>

definition round_even :: "real \<Rightarrow> int" where
  "round_even x =
     (let f = \<lfloor>x\<rfloor>; d = x - of_int f
      in if d < 1 / 2 then f else if 1 / 2 < d then f + 1 else if even f then f else f + 1)"

definition ulp :: "real \<Rightarrow> real" where
  "ulp x = 2 powr (of_int \<lfloor>log 2 \<bar>x\<bar>\<rfloor> - 52)"

definition round_double :: "real \<Rightarrow> real" where
  "round_double x = (if x = 0 then 0 else of_int (round_even (x / ulp x)) * ulp x)"

text \<open>A real is a double when rounding leaves it as it is.\<close>

definition is_double :: "real \<Rightarrow> bool" where
  "is_double x = (round_double x = x)"


text \<open>A rounding function with relative error at most \<open>u\<close>, and the error that \<open>j\<close> such
  roundings can add to a quantity of size at most \<open>M\<close>.\<close>

definition rel_rounding :: "real \<Rightarrow> (real \<Rightarrow> real) \<Rightarrow> bool" where
  "rel_rounding u R = (\<forall>x. \<bar>R x - x\<bar> \<le> u * \<bar>x\<bar>)"

definition err_bound :: "real \<Rightarrow> real \<Rightarrow> nat \<Rightarrow> real" where
  "err_bound u M j = M * ((1 + u) ^ j - 1)"

section \<open>The platform\<close>

text \<open>
  What the program takes from its runtime and does not define itself: \<open>parseFloat\<close>,
  number and date formatting, the local time zone (a fixed offset from UTC in milliseconds;
  daylight saving is not modelled), the rounding of arithmetic, the stream of
  \<open>Math.random()\<close> results, and which of the store writes of the scheduler throw (the
  \<open>n\<close>-th faultable operation throws when \<open>fails n\<close>).
\<close>

record platform =
  parseFloat :: "string \<Rightarrow> real option"
  numToString :: "real option \<Rightarrow> string"
  toISOString :: "int \<Rightarrow> string"
  tzOffset :: int
  rounding :: "real \<Rightarrow> real"
  random :: "nat \<Rightarrow> real"
  fails :: "nat \<Rightarrow> bool"

definition fadd :: "platform \<Rightarrow> real \<Rightarrow> real \<Rightarrow> real" where
  "fadd P x y = rounding P (x + y)"

definition fmul :: "platform \<Rightarrow> real \<Rightarrow> real \<Rightarrow> real" where
  "fmul P x y = rounding P (x * y)"

definition fdiv :: "platform \<Rightarrow> real \<Rightarrow> real \<Rightarrow> real" where
  "fdiv P x y = rounding P (x / y)"

text \<open>Comparison of a possibly-\<open>NaN\<close> number with a constant: false on \<open>NaN\<close>.\<close>

definition num_gt :: "real option \<Rightarrow> real \<Rightarrow> bool" where
  "num_gt a c = (case a of None \<Rightarrow> False | Some v \<Rightarrow> c < v)"

definition num_ge :: "real option \<Rightarrow> real \<Rightarrow> bool" where
  "num_ge a c = (case a of None \<Rightarrow> False | Some v \<Rightarrow> c \<le> v)"

text \<open>The sum of two possibly-\<open>NaN\<close> numbers.\<close>

definition num_add :: "platform \<Rightarrow> real option \<Rightarrow> real option \<Rightarrow> real option" where
  "num_add P a b =
     (case a of None \<Rightarrow> None
      | Some x \<Rightarrow> (case b of None \<Rightarrow> None | Some y \<Rightarrow> Some (fadd P x y)))"

text \<open>Dates are milliseconds since the epoch. \<open>Date.getHours()\<close> and local midnight
  (\<open>setHours(0, 0, 0, 0)\<close>):\<close>

definition getHours :: "platform \<Rightarrow> int \<Rightarrow> int" where
  "getHours P t = ((t + tzOffset P) div 3600000) mod 24"

definition localMidnight :: "platform \<Rightarrow> int \<Rightarrow> int" where
  "localMidnight P t = t - ((t + tzOffset P) mod 86400000)"

section \<open>Data model (shared/schema.ts)\<close>

datatype agent_type = transaction_monitor | behavior_analysis | risk_scoring | alerting | reporting

datatype agent_status = active | inactive | processing | error

datatype tx_status = pending | confirmed | failed

datatype risk_level = low | medium | high | critical

datatype alert_type = fraud_detection | pattern_analysis | risk_threshold | bot_activity | compliance

datatype alert_status = alert_open | investigating | resolved | false_positive

datatype report_type = daily_summary | risk_analysis | report_compliance | audit_trail | custom

datatype report_status = generating | completed | report_failed | scheduled

datatype report_format = pdf | excel | json | csv

datatype mixed = JStr string | JNum real | JDate int | JUndefined

text \<open>\<open>config\<close> is a free-form bag in the source; the handlers read these four keys. A key
  that is absent is \<open>None\<close>.\<close>

record config =
  networks :: "string list option"
  batchSize :: "int option"
  lookbackHours :: "int option"
  severityThreshold :: "string option"

record agent =
  a_id :: nat
  name :: string
  a_type :: agent_type
  a_status :: agent_status
  a_progress :: int
  lastRun :: "int option"
  nextRun :: "int option"
  intervalSeconds :: int
  config :: config

text \<open>The partial update of an agent that the control route accepts (\<open>updateAgentSchema\<close>).\<close>

record agent_updates =
  u_status :: "agent_status option"
  u_progress :: "int option"
  u_config :: "config option"

record transaction =
  t_id :: nat
  hash :: string
  blockNumber :: int
  fromAddress :: string
  toAddress :: string
  amount :: string
  gasPrice :: string
  gasUsed :: int
  timestamp :: int
  riskScore :: real
  t_status :: tx_status
  network :: string
  analyzedAt :: "int option"

record alert =
  al_id :: nat
  al_title :: string
  description :: string
  severity :: risk_level
  al_type :: alert_type
  al_status :: alert_status
  transactionHash :: "string option"
  walletAddress :: "string option"
  al_riskScore :: "real option"
  metadata :: "(string \<times> mixed) list"

record walletProfile =
  w_id :: nat
  address :: string
  totalTransactions :: nat
  totalValue :: string
  averageRiskScore :: real
  firstSeen :: int
  lastSeen :: int
  tags :: "string list"
  riskLevel :: risk_level
  timePattern :: "(int \<times> int) list"
  amountPattern :: "string option"

record report =
  r_id :: nat
  r_title :: string
  r_type :: report_type
  r_status :: report_status
  r_progress :: int
  filePath :: "string option"
  format :: report_format
  parameters :: "(string \<times> mixed) list"
  generatedBy :: string
  scheduledFor :: "int option"
  completedAt :: "int option"
  createdAt :: int


section \<open>The store, the broadcast channel and the manager's state\<close>

text \<open>
  One state holds the five collections of the document store (each a list in insertion
  order, which is the order \<open>find\<close> returns), the clock, the events pushed to the
  broadcast channel, and the fields of \<open>AgentManager\<close>: \<open>intervals\<close> (agent id to timer
  handle) and \<open>running\<close>. \<open>timers\<close> are the pending \<open>setTimeout\<close> calls of the manager
  (handle, delay in milliseconds, and the agent object the callback closes over).
  \<open>dispatched\<close> is a history variable: the types for which \<open>executeAgentLogic\<close> was
  entered. \<open>draws\<close> counts the calls of \<open>Math.random()\<close> and \<open>ops\<close> the faultable store
  writes. The clock advances only where the source waits on a timer.
\<close>

datatype event = AgentUpdate nat agent_status int "int option"

record state =
  agents :: "agent list"
  transactions :: "transaction list"
  alerts :: "alert list"
  walletProfiles :: "walletProfile list"
  reports :: "report list"
  nextId :: nat
  clock :: int
  draws :: nat
  ops :: nat
  broadcasts :: "event list"
  dispatched :: "agent_type list"
  intervals :: "nat \<rightharpoonup> nat"
  running :: bool
  timers :: "(nat \<times> int \<times> agent) list"
  nextHandle :: nat

definition broadcastAgentUpdate :: "event \<Rightarrow> state \<Rightarrow> state" where
  "broadcastAgentUpdate e s = s\<lparr>broadcasts := broadcasts s @ [e]\<rparr>"

definition sleep :: "int \<Rightarrow> state \<Rightarrow> state" where
  "sleep ms s = s\<lparr>clock := clock s + ms\<rparr>"

section \<open>Risk scorer (calculateRiskScore)\<close>

text \<open>\<open>r\<close> is the value \<open>Math.random()\<close> returns in this call.\<close>

definition calculateRiskScore :: "platform \<Rightarrow> real \<Rightarrow> transaction \<Rightarrow> real" where
  "calculateRiskScore P r tx =
     (let score0 = 0;
          amt = parseFloat P (amount tx);
          score1 = (if num_gt amt 100000 then fadd P score0 3
                    else if num_gt amt 50000 then fadd P score0 2
                    else if num_gt amt 10000 then fadd P score0 1
                    else score0);
          hour = getHours P (timestamp tx);
          score2 = (if hour \<ge> 22 \<or> hour \<le> 4 then fadd P score1 1 else score1);
          score3 = fadd P score2 (fmul P r 2)
      in min 10 (max 0 score3))"

section \<open>Wallet aggregator (updateWalletProfile)\<close>

text \<open>The step function of lines 268 and 278, written inline there.\<close>

definition tier :: "real \<Rightarrow> risk_level" where
  "tier x = (if x \<ge> 8 then critical else if x \<ge> 6 then high else if x \<ge> 4 then medium else low)"

definition getAmountRange :: "real option \<Rightarrow> string" where
  "getAmountRange amt =
     (if num_ge amt 100000 then ''very_high''
      else if num_ge amt 50000 then ''high''
      else if num_ge amt 10000 then ''medium''
      else if num_ge amt 1000 then ''low''
      else ''very_low'')"

text \<open>The profile \<open>WalletProfile.findOne({ address })\<close> returns.\<close>

definition profileOf :: "string \<Rightarrow> state \<Rightarrow> walletProfile option" where
  "profileOf addr s = find (\<lambda>p. address p = addr) (walletProfiles s)"

definition updateWalletProfile :: "platform \<Rightarrow> string \<Rightarrow> transaction \<Rightarrow> state \<Rightarrow> state" where
  "updateWalletProfile P addr tx s =
     (case profileOf addr s of
        Some existingProfile \<Rightarrow>
          (let totalTransactions' = totalTransactions existingProfile + 1;
               totalValue' = numToString P
                 (num_add P (parseFloat P (totalValue existingProfile)) (parseFloat P (amount tx)));
               averageRiskScore' =
                 fdiv P (fadd P (fmul P (averageRiskScore existingProfile)
                                        (real (totalTransactions existingProfile)))
                                (riskScore tx))
                        (real totalTransactions')
           in s\<lparr>walletProfiles :=
                  map (\<lambda>p. if w_id p = w_id existingProfile
                            then p\<lparr>totalTransactions := totalTransactions',
                                   totalValue := totalValue',
                                   averageRiskScore := averageRiskScore',
                                   lastSeen := timestamp tx,
                                   riskLevel := tier averageRiskScore'\<rparr>
                            else p)
                      (walletProfiles s)\<rparr>)
      | None \<Rightarrow>
          s\<lparr>walletProfiles := walletProfiles s @
                [\<lparr>w_id = nextId s, address = addr, totalTransactions = 1,
                  totalValue = amount tx, averageRiskScore = riskScore tx,
                  firstSeen = timestamp tx, lastSeen = timestamp tx, tags = [],
                  riskLevel = tier (riskScore tx),
                  timePattern = [(getHours P (timestamp tx), 1)],
                  amountPattern = Some (getAmountRange (parseFloat P (amount tx)))\<rparr>],
             nextId := nextId s + 1\<rparr>)"

section \<open>Agent handlers\<close>

definition executeTransactionMonitor :: "platform \<Rightarrow> agent \<Rightarrow> state \<Rightarrow> state" where
  "executeTransactionMonitor P ag s = s"

subsection \<open>risk\_scoring\<close>

text \<open>One iteration of the loop of \<open>executeRiskScoring\<close>. \<open>tx\<close> is the document as the query
  returned it; the update goes to the store, and \<open>tx\<close> itself is passed on unchanged.\<close>

definition scoreTransaction :: "platform \<Rightarrow> state \<Rightarrow> transaction \<Rightarrow> state" where
  "scoreTransaction P s tx =
     (let r = random P (draws s);
          s1 = s\<lparr>draws := draws s + 1\<rparr>;
          riskScore' = calculateRiskScore P r tx;
          s2 = s1\<lparr>transactions :=
                   map (\<lambda>t. if t_id t = t_id tx
                             then t\<lparr>riskScore := riskScore', analyzedAt := Some (clock s1)\<rparr>
                             else t)
                       (transactions s1)\<rparr>
      in updateWalletProfile P (fromAddress tx) tx s2)"

definition executeRiskScoring :: "platform \<Rightarrow> agent \<Rightarrow> state \<Rightarrow> state" where
  "executeRiskScoring P ag s =
     (let unanalyzedTransactions =
            take 50 (filter (\<lambda>t. analyzedAt t = None \<and> riskScore t \<le> 0) (transactions s))
      in foldl (scoreTransaction P) s unanalyzedTransactions)"


subsection \<open>behavior\_analysis and alerting\<close>

definition findAlertByHash :: "string \<Rightarrow> state \<Rightarrow> alert option" where
  "findAlertByHash h s = find (\<lambda>a. transactionHash a = Some h) (alerts s)"

definition createAlert :: "alert \<Rightarrow> state \<Rightarrow> state" where
  "createAlert a s = s\<lparr>alerts := alerts s @ [a\<lparr>al_id := nextId s\<rparr>], nextId := nextId s + 1\<rparr>"

text \<open>The alerts that carry a given transaction hash.\<close>

definition alertsFor :: "string \<Rightarrow> state \<Rightarrow> alert list" where
  "alertsFor h s = filter (\<lambda>a. transactionHash a = Some h) (alerts s)"

definition analyzeTransaction :: "platform \<Rightarrow> state \<Rightarrow> transaction \<Rightarrow> state" where
  "analyzeTransaction P s tx =
     (let existingAlert = findAlertByHash (hash tx) s
      in if existingAlert = None \<and> riskScore tx \<ge> 8
         then createAlert
                \<lparr>al_id = 0,
                 al_title = ''High Risk Transaction Pattern'',
                 description = ''Transaction '' @ hash tx @ '' shows suspicious behavioral patterns'',
                 severity = (if riskScore tx \<ge> 9 then critical else high),
                 al_type = pattern_analysis,
                 al_status = alert_open,
                 transactionHash = Some (hash tx),
                 walletAddress = Some (fromAddress tx),
                 al_riskScore = Some (riskScore tx),
                 metadata = [(''amount'', JStr (amount tx)), (''network'', JStr (network tx)),
                             (''analysisTimestamp'', JDate (clock s))]\<rparr> s
         else s)"

definition executeBehaviorAnalysis :: "platform \<Rightarrow> agent \<Rightarrow> state \<Rightarrow> state" where
  "executeBehaviorAnalysis P ag s =
     (let lookbackHours' = (case lookbackHours (config ag) of None \<Rightarrow> 24
                            | Some h \<Rightarrow> if h = 0 then 24 else h);
          cutoffTime = clock s - lookbackHours' * 60 * 60 * 1000;
          suspiciousTransactions =
            take 10 (filter (\<lambda>t. timestamp t \<ge> cutoffTime \<and> riskScore t \<ge> 7) (transactions s))
      in foldl (analyzeTransaction P) s suspiciousTransactions)"

definition alertTransaction :: "platform \<Rightarrow> agent \<Rightarrow> state \<Rightarrow> transaction \<Rightarrow> state" where
  "alertTransaction P ag s tx =
     (let existingAlert = findAlertByHash (hash tx) s
      in if existingAlert = None
         then createAlert
                \<lparr>al_id = 0,
                 al_title = ''Risk Threshold Exceeded'',
                 description = ''Transaction '' @ hash tx @ '' exceeded risk threshold with score ''
                               @ numToString P (Some (riskScore tx)),
                 severity = (if riskScore tx \<ge> 9 then critical
                             else if riskScore tx \<ge> 7 then high else medium),
                 al_type = risk_threshold,
                 al_status = alert_open,
                 transactionHash = Some (hash tx),
                 walletAddress = Some (fromAddress tx),
                 al_riskScore = Some (riskScore tx),
                 metadata = [(''amount'', JStr (amount tx)), (''network'', JStr (network tx)),
                             (''threshold'', (case severityThreshold (config ag) of
                                                None \<Rightarrow> JUndefined | Some th \<Rightarrow> JStr th))]\<rparr> s
         else s)"

definition executeAlerting :: "platform \<Rightarrow> agent \<Rightarrow> state \<Rightarrow> state" where
  "executeAlerting P ag s =
     (let openAlerts = take 20 (filter (\<lambda>a. al_status a = alert_open) (alerts s));
          threshold = (if severityThreshold (config ag) = Some ''high'' then 8 else 6);
          highRiskTransactions =
            take 10 (filter (\<lambda>t. riskScore t \<ge> threshold \<and> analyzedAt t \<noteq> None) (transactions s))
      in foldl (alertTransaction P ag) s highRiskTransactions)"

subsection \<open>reporting\<close>

definition report_type_name :: "report_type \<Rightarrow> string" where
  "report_type_name t =
     (case t of daily_summary \<Rightarrow> ''daily_summary'' | risk_analysis \<Rightarrow> ''risk_analysis''
      | report_compliance \<Rightarrow> ''compliance'' | audit_trail \<Rightarrow> ''audit_trail'' | custom \<Rightarrow> ''custom'')"

definition report_format_name :: "report_format \<Rightarrow> string" where
  "report_format_name f =
     (case f of pdf \<Rightarrow> ''pdf'' | excel \<Rightarrow> ''excel'' | json \<Rightarrow> ''json'' | csv \<Rightarrow> ''csv'')"

definition updateReport :: "nat \<Rightarrow> (report \<Rightarrow> report) \<Rightarrow> state \<Rightarrow> state" where
  "updateReport i f s = s\<lparr>reports := map (\<lambda>r. if r_id r = i then f r else r) (reports s)\<rparr>"

definition reportProgressStep :: "nat \<Rightarrow> state \<Rightarrow> int \<Rightarrow> state" where
  "reportProgressStep i s p = updateReport i (\<lambda>r. r\<lparr>r_progress := p\<rparr>) (sleep 500 s)"

definition generateReport :: "platform \<Rightarrow> state \<Rightarrow> report \<Rightarrow> state" where
  "generateReport P s rep =
     (let s1 = updateReport (r_id rep) (\<lambda>r. r\<lparr>r_status := generating, r_progress := 0\<rparr>) s;
          s2 = foldl (reportProgressStep (r_id rep)) s1 [20, 40, 60, 80, 100]
      in updateReport (r_id rep)
           (\<lambda>r. r\<lparr>r_status := completed, r_progress := 100, completedAt := Some (clock s2),
                   filePath := Some (''/reports/'' @ report_type_name (r_type rep) @ ''_''
                                     @ numToString P (Some (real_of_int (clock s2))) @ ''.''
                                     @ report_format_name (format rep))\<rparr>) s2)"

definition pendingReports :: "state \<Rightarrow> report list" where
  "pendingReports s =
     take 5 (filter (\<lambda>r. r_status r = scheduled \<and>
                          (case scheduledFor r of None \<Rightarrow> False | Some d \<Rightarrow> d \<le> clock s))
                    (reports s))"

text \<open>The first half of \<open>executeReporting\<close>: the loop over the pending reports.\<close>

definition generatePendingReports :: "platform \<Rightarrow> state \<Rightarrow> state" where
  "generatePendingReports P s = foldl (generateReport P) s (pendingReports s)"

text \<open>The \<open>daily_summary\<close> reports created at or after \<open>d\<close>: what the existence check of
  \<open>executeReporting\<close> looks for, with \<open>d\<close> the local midnight.\<close>

definition dailySummaries :: "int \<Rightarrow> state \<Rightarrow> report list" where
  "dailySummaries d s = filter (\<lambda>r. r_type r = daily_summary \<and> createdAt r \<ge> d) (reports s)"

definition executeReporting :: "platform \<Rightarrow> agent \<Rightarrow> state \<Rightarrow> state" where
  "executeReporting P ag s =
     (let s1 = generatePendingReports P s;
          today = localMidnight P (clock s1);
          dailySummaryExists = find (\<lambda>r. r_type r = daily_summary \<and> createdAt r \<ge> today) (reports s1)
      in if dailySummaryExists = None
         then s1\<lparr>reports := reports s1 @
                   [\<lparr>r_id = nextId s1,
                     r_title = ''Daily Summary - '' @ takeWhile (\<lambda>c. c \<noteq> CHR ''T'') (toISOString P today),
                     r_type = daily_summary,
                     r_status = generating,
                     r_progress = 0,
                     filePath = None,
                     format = pdf,
                     parameters = [(''date'', JStr (toISOString P today))],
                     generatedBy = ''system'',
                     scheduledFor = None,
                     completedAt = None,
                     createdAt = clock s1\<rparr>],
                 nextId := nextId s1 + 1\<rparr>
         else s1)"

section \<open>Agent scheduler (AgentManager)\<close>

text \<open>
  An asynchronous function of the scheduler either completes or throws; both leave a state
  behind, since the writes made before a throw stay in the store.
\<close>

datatype outcome = Done state | Threw state

definition obind :: "outcome \<Rightarrow> (state \<Rightarrow> outcome) \<Rightarrow> outcome" where
  "obind m f = (case m of Done s \<Rightarrow> f s | Threw s \<Rightarrow> Threw s)"

definition state_of :: "outcome \<Rightarrow> state" where
  "state_of m = (case m of Done s \<Rightarrow> s | Threw s \<Rightarrow> s)"

definition threw :: "outcome \<Rightarrow> bool" where
  "threw m = (case m of Done s \<Rightarrow> False | Threw s \<Rightarrow> True)"

text \<open>\<open>Agent.findByIdAndUpdate\<close>: a faultable write.\<close>

definition findByIdAndUpdate :: "platform \<Rightarrow> nat \<Rightarrow> (agent \<Rightarrow> agent) \<Rightarrow> state \<Rightarrow> outcome" where
  "findByIdAndUpdate P i f s =
     (let s1 = s\<lparr>ops := ops s + 1\<rparr>
      in if fails P (ops s) then Threw s1
         else Done (s1\<lparr>agents := map (\<lambda>a. if a_id a = i then f a else a) (agents s1)\<rparr>))"

text \<open>The dispatch on the agent's type. The store accesses of a handler count as one
  faultable operation, at its entry; the monitor handler touches no store.\<close>

definition executeAgentLogic :: "platform \<Rightarrow> agent \<Rightarrow> state \<Rightarrow> outcome" where
  "executeAgentLogic P ag s =
     (let s0 = s\<lparr>dispatched := dispatched s @ [a_type ag]\<rparr>;
          s1 = s0\<lparr>ops := ops s0 + 1\<rparr>
      in case a_type ag of
           transaction_monitor \<Rightarrow> Done (executeTransactionMonitor P ag s0)
         | behavior_analysis \<Rightarrow>
             if fails P (ops s0) then Threw s1 else Done (executeBehaviorAnalysis P ag s1)
         | risk_scoring \<Rightarrow>
             if fails P (ops s0) then Threw s1 else Done (executeRiskScoring P ag s1)
         | alerting \<Rightarrow>
             if fails P (ops s0) then Threw s1 else Done (executeAlerting P ag s1)
         | reporting \<Rightarrow>
             if fails P (ops s0) then Threw s1 else Done (executeReporting P ag s1))"

definition progressUpdates :: "int list" where
  "progressUpdates = [10, 25, 40, 55, 70, 85, 95, 100]"

definition interval_or_default :: "agent \<Rightarrow> int" where
  "interval_or_default ag = (if intervalSeconds ag = 0 then 30 else intervalSeconds ag)"

text \<open>The loop of \<open>executeAgent\<close> over the remaining rungs. The step delay
  \<open>intervalSeconds * 1000 / 8\<close> is \<open>intervalSeconds * 125\<close>, so the division is exact.\<close>

fun progressLoop :: "platform \<Rightarrow> agent \<Rightarrow> int \<Rightarrow> int \<Rightarrow> int list \<Rightarrow> state \<Rightarrow> outcome" where
  "progressLoop P ag now stepDelay [] s = Done s"
| "progressLoop P ag now stepDelay (progress # rest) s =
     obind (findByIdAndUpdate P (a_id ag) (\<lambda>a. a\<lparr>a_progress := progress\<rparr>) (sleep stepDelay s))
       (\<lambda>s1. obind
          (let s2 = broadcastAgentUpdate (AgentUpdate (a_id ag) processing progress (Some now)) s1
           in if progress = 50 then executeAgentLogic P ag s2 else Done s2)
          (\<lambda>s3. progressLoop P ag now stepDelay rest s3))"

definition executeAgent :: "platform \<Rightarrow> agent \<Rightarrow> state \<Rightarrow> outcome" where
  "executeAgent P ag s =
     (let agentId = a_id ag;
          now = clock s;
          nextRunTime = now + interval_or_default ag * 1000
      in obind (findByIdAndUpdate P agentId
                  (\<lambda>a. a\<lparr>a_status := processing, a_progress := 0, lastRun := Some now,
                          nextRun := Some nextRunTime\<rparr>) s)
           (\<lambda>s1. obind
              (progressLoop P ag now ((interval_or_default ag * 1000) div 8) progressUpdates
                 (broadcastAgentUpdate (AgentUpdate agentId processing 0 (Some now)) s1))
              (\<lambda>s2. obind
                 (findByIdAndUpdate P agentId (\<lambda>a. a\<lparr>a_status := active, a_progress := 0\<rparr>) s2)
                 (\<lambda>s3. Done (broadcastAgentUpdate (AgentUpdate agentId active 0 (Some now)) s3)))))"

text \<open>\<open>setTimeout\<close> of the agent's callback followed by \<open>intervals.set\<close>, and \<open>clearTimeout\<close>.\<close>

definition armTimer :: "agent \<Rightarrow> int \<Rightarrow> state \<Rightarrow> state" where
  "armTimer ag delay s =
     s\<lparr>timers := timers s @ [(nextHandle s, delay, ag)],
       intervals := (intervals s)(a_id ag \<mapsto> nextHandle s),
       nextHandle := nextHandle s + 1\<rparr>"

definition clearTimeout :: "nat \<Rightarrow> state \<Rightarrow> state" where
  "clearTimeout h s = s\<lparr>timers := filter (\<lambda>(h', d, a). h' \<noteq> h) (timers s)\<rparr>"

definition scheduleAgent :: "platform \<Rightarrow> agent \<Rightarrow> state \<Rightarrow> state" where
  "scheduleAgent P ag s =
     (let s1 = (case intervals s (a_id ag) of Some h \<Rightarrow> clearTimeout h s | None \<Rightarrow> s);
          now = clock s1;
          delay = (case nextRun ag of
                     Some nr \<Rightarrow> if nr > now then nr - now else 0
                   | None \<Rightarrow> 0)
      in armTimer ag delay s1)"

text \<open>The callback that \<open>scheduleAgent\<close> arms (the closure named \<open>executeAgent\<close> there).
  A throw of the write in its \<open>catch\<close> block leaves the callback.\<close>

definition timerCallback :: "platform \<Rightarrow> agent \<Rightarrow> state \<Rightarrow> state" where
  "timerCallback P ag s =
     (case executeAgent P ag s of
        Done s1 \<Rightarrow>
          if running s1 then armTimer ag (interval_or_default ag * 1000) s1 else s1
      | Threw s1 \<Rightarrow>
          (case findByIdAndUpdate P (a_id ag) (\<lambda>a. a\<lparr>a_status := error, a_progress := 0\<rparr>) s1 of
             Threw s2 \<Rightarrow> s2
           | Done s2 \<Rightarrow>
               (let s3 = broadcastAgentUpdate (AgentUpdate (a_id ag) error 0 (Some (clock s2))) s2
                in if running s3 then armTimer ag (interval_or_default ag * 2000) s3 else s3)))"

definition start :: "platform \<Rightarrow> state \<Rightarrow> state" where
  "start P s =
     (if running s then s
      else foldl (\<lambda>s' a. scheduleAgent P a s') (s\<lparr>running := True\<rparr>)
             (filter (\<lambda>a. a_status a = active) (agents s)))"

text \<open>\<open>stop\<close> clears every timer registered in \<open>intervals\<close>; a pending timer is registered,
  if at all, under the id of its agent.\<close>

definition stop :: "state \<Rightarrow> state" where
  "stop s = s\<lparr>running := False,
              timers := filter (\<lambda>(h, d, a). intervals s (a_id a) \<noteq> Some h) (timers s),
              intervals := Map.empty\<rparr>"

definition applyUpdates :: "agent_updates \<Rightarrow> agent \<Rightarrow> agent" where
  "applyUpdates u a =
     a\<lparr>a_status := (case u_status u of None \<Rightarrow> a_status a | Some v \<Rightarrow> v),
       a_progress := (case u_progress u of None \<Rightarrow> a_progress a | Some v \<Rightarrow> v),
       config := (case u_config u of None \<Rightarrow> config a | Some v \<Rightarrow> v)\<rparr>"

definition updateAgentStatus :: "platform \<Rightarrow> nat \<Rightarrow> agent_updates \<Rightarrow> state \<Rightarrow> outcome" where
  "updateAgentStatus P agentId updates s =
     obind (findByIdAndUpdate P agentId (applyUpdates updates) s)
       (\<lambda>s1. case find (\<lambda>a. a_id a = agentId) (agents s1) of
           None \<Rightarrow> Done s1
         | Some ag \<Rightarrow>
             (let s2 = broadcastAgentUpdate
                         (AgentUpdate agentId (a_status ag) (a_progress ag) (lastRun ag)) s1
              in if u_status updates = Some active \<and> intervals s2 agentId = None
                 then Done (scheduleAgent P ag s2)
                 else if u_status updates = Some inactive \<and> intervals s2 agentId \<noteq> None
                 then Done ((case intervals s2 agentId of Some h \<Rightarrow> clearTimeout h s2 | None \<Rightarrow> s2)
                              \<lparr>intervals := (intervals s2)(agentId := None)\<rparr>)
                 else Done s2))"


text \<open>What a cycle of the scheduler leaves as it is when no handler runs: the history of
  dispatches, the four collections other than the agents, and the manager's own fields.\<close>

definition unchanged :: "state \<Rightarrow> state \<Rightarrow> bool" where
  "unchanged s s' =
     (dispatched s' = dispatched s \<and> transactions s' = transactions s \<and> alerts s' = alerts s
      \<and> walletProfiles s' = walletProfiles s \<and> reports s' = reports s
      \<and> running s' = running s \<and> timers s' = timers s \<and> intervals s' = intervals s
      \<and> nextHandle s' = nextHandle s)"

section \<open>The scorer as the specification words it\<close>

text \<open>
  Section 4.2 of the specification: base 0; one amount tier, the highest applicable of
  \<open>> 100000 \<rightarrow> 3\<close>, \<open>> 50000 \<rightarrow> 2\<close>, \<open>> 10000 \<rightarrow> 1\<close>, else 0; plus 1 when the local hour is one
  of 22, 23, 0, 1, 2, 3, 4; plus the jitter; clamped to \<open>[0, 10]\<close>. The sum of base and
  jitter is the program's addition.
\<close>

definition amount_tiers :: "(real \<times> nat) list" where
  "amount_tiers = [(100000, 3), (50000, 2), (10000, 1)]"

definition spec_tier :: "real option \<Rightarrow> nat" where
  "spec_tier a = fold max (map snd (filter (\<lambda>(thr, pts). num_gt a thr) amount_tiers)) 0"

definition night_hours :: "int list" where
  "night_hours = [22, 23, 0, 1, 2, 3, 4]"

definition spec_night :: "int \<Rightarrow> nat" where
  "spec_night h = (if h \<in> set night_hours then 1 else 0)"

definition spec_score :: "platform \<Rightarrow> real \<Rightarrow> transaction \<Rightarrow> real" where
  "spec_score P r tx =
     min 10 (max 0 (fadd P (real (spec_tier (parseFloat P (amount tx))
                                  + spec_night (getHours P (timestamp tx))))
                           (fmul P r 2)))"

text \<open>The order of the risk tiers.\<close>

definition level_rank :: "risk_level \<Rightarrow> nat" where
  "level_rank l = (case l of low \<Rightarrow> 0 | medium \<Rightarrow> 1 | high \<Rightarrow> 2 | critical \<Rightarrow> 3)"

section \<open>Concrete inputs\<close>

text \<open>
  A platform for the concrete runs below: UTC, double rounding, every \<open>Math.random()\<close>
  returning 0.25, no store fault, and a \<open>parseFloat\<close> that reads a nonempty string of decimal
  digits (where JavaScript's \<open>parseFloat\<close> returns the same number) and is \<open>NaN\<close> elsewhere.
  Its two formatting functions are stand-ins; no statement below depends on them.
\<close>

fun parse_digits :: "nat \<Rightarrow> string \<Rightarrow> nat option" where
  "parse_digits acc [] = Some acc"
| "parse_digits acc (c # cs) =
     (if 48 \<le> (of_char c :: nat) \<and> (of_char c :: nat) \<le> 57
      then parse_digits (10 * acc + (of_char c - 48)) cs else None)"

definition parseDecimal :: "string \<Rightarrow> real option" where
  "parseDecimal str = (if str = [] then None else map_option real (parse_digits 0 str))"

definition utc_platform :: platform where
  "utc_platform =
     \<lparr>parseFloat = parseDecimal,
      numToString = (\<lambda>v. case v of None \<Rightarrow> ''NaN'' | Some x \<Rightarrow> ''<number>''),
      toISOString = (\<lambda>t. ''<date>T<time>''),
      tzOffset = 0,
      rounding = round_double,
      random = (\<lambda>n. 1 / 4),
      fails = (\<lambda>n. False)\<rparr>"

text \<open>The transaction of Scenario A: amount 150000 at 03:00, not yet scored.\<close>

definition tx_A :: transaction where
  "tx_A =
     \<lparr>t_id = 1, hash = ''0xa1'', blockNumber = 100, fromAddress = ''0xf00'',
      toAddress = ''0xb0b'', amount = ''150000'', gasPrice = ''20000000000'', gasUsed = 21000,
      timestamp = 10800000, riskScore = 0, t_status = pending, network = ''ethereum'',
      analyzedAt = None\<rparr>"


text \<open>Exact arithmetic instead of double rounding.\<close>

definition exact_platform :: platform where
  "exact_platform = utc_platform\<lparr>rounding := (\<lambda>x. x)\<rparr>"

text \<open>Scenario A's agent: \<open>risk_scoring\<close>, every 5 seconds, empty configuration.\<close>

definition agent_A :: agent where
  "agent_A =
     \<lparr>a_id = 0, name = ''Risk Scoring'', a_type = risk_scoring, a_status = active,
      a_progress = 0, lastRun = None, nextRun = None, intervalSeconds = 5,
      config = \<lparr>networks = None, batchSize = None, lookbackHours = None,
                 severityThreshold = None\<rparr>\<rparr>"

definition state_0 :: state where
  "state_0 =
     \<lparr>agents = [agent_A], transactions = [], alerts = [], walletProfiles = [], reports = [],
      nextId = 2, clock = 11000000, draws = 0, ops = 0, broadcasts = [], dispatched = [],
      intervals = Map.empty, running = True, timers = [], nextHandle = 0\<rparr>"

definition state_A :: state where
  "state_A = state_0\<lparr>transactions := [tx_A]\<rparr>"

text \<open>Scenario B: two scored transactions of one address, with scores 4 and 8.\<close>

definition tx_B1 :: transaction where
  "tx_B1 = tx_A\<lparr>riskScore := 4\<rparr>"

definition tx_B2 :: transaction where
  "tx_B2 = tx_A\<lparr>t_id := 2, hash := ''0xa2'', riskScore := 8\<rparr>"

text \<open>Scenario D: a long history of one address. 4194304 transactions with score 4 (amount
  150000 at a night hour, jitter 0), then 12582912 transactions with score \<open>4 + 3 / 2\<^sup>3\<^sup>1\<close>
  (the same transaction, jitter \<open>3 / 2\<^sup>3\<^sup>2\<close>): 16777216 in all.\<close>

definition tx_D0 :: transaction where
  "tx_D0 = tx_A\<lparr>riskScore := 4\<rparr>"

definition tx_D1 :: transaction where
  "tx_D1 = tx_A\<lparr>t_id := 2, hash := ''0xa2'', riskScore := 4 + 3 / 2 ^ 31\<rparr>"

definition drift_txs :: "transaction list" where
  "drift_txs = replicate 4194304 tx_D0 @ replicate 12582912 tx_D1"

text \<open>Scenario C: one analysed transaction with score 9, no alert yet, and the alerting
  agent.\<close>

definition tx_C :: transaction where
  "tx_C = tx_A\<lparr>riskScore := 9, analyzedAt := Some 10900000\<rparr>"

definition agent_C :: agent where
  "agent_C = agent_A\<lparr>a_id := 3, name := ''Alert Processing'', a_type := alerting, intervalSeconds := 6\<rparr>"

definition state_C :: state where
  "state_C = state_0\<lparr>agents := [agent_C], transactions := [tx_C]\<rparr>"

text \<open>The reporting agent.\<close>

definition agent_R :: agent where
  "agent_R = agent_A\<lparr>a_id := 4, name := ''Report Generation'', a_type := reporting, intervalSeconds := 30\<rparr>"

text \<open>A store whose third faultable write throws, and a store that is down (every write
  throws).\<close>

definition faulty_platform :: platform where
  "faulty_platform = utc_platform\<lparr>fails := (\<lambda>n. n = 2)\<rparr>"

definition dead_store_platform :: platform where
  "dead_store_platform = utc_platform\<lparr>fails := (\<lambda>n. True)\<rparr>"

text \<open>A paused agent whose \<open>nextRun\<close> lies three seconds ahead, and three partial updates.\<close>

definition agent_P :: agent where
  "agent_P = agent_A\<lparr>a_status := inactive, nextRun := Some 11003000\<rparr>"

definition state_P :: state where
  "state_P = state_0\<lparr>agents := [agent_P]\<rparr>"

definition u_active :: agent_updates where
  "u_active = \<lparr>u_status = Some active, u_progress = None, u_config = None\<rparr>"

definition u_inactive :: agent_updates where
  "u_inactive = \<lparr>u_status = Some inactive, u_progress = None, u_config = None\<rparr>"

definition u_progress_only :: agent_updates where
  "u_progress_only = \<lparr>u_status = None, u_progress = Some 5, u_config = None\<rparr>"

text \<open>The paused agent after it was resumed (its timer armed), and the store 30 seconds
  after the reporting handler ran on the empty store.\<close>

definition state_T :: state where
  "state_T = state_of (updateAgentStatus utc_platform 0 u_active state_P)"

definition state_R :: state where
  "state_R = sleep 30000 (executeReporting utc_platform agent_R state_0)"

section \<open>Facts about rounding to a double\<close>

lemma round_even_of_int: "round_even (of_int n) = n"
  by (simp add: round_even_def)

lemma round_even_mono: "x \<le> y \<Longrightarrow> round_even x \<le> round_even y"
proof -
  assume xy: "x \<le> y"
  have fl: "\<lfloor>x\<rfloor> \<le> \<lfloor>y\<rfloor>" using xy by (rule floor_mono)
  show ?thesis
  proof (cases "\<lfloor>x\<rfloor> = \<lfloor>y\<rfloor>")
    case True
    then show ?thesis using xy by (auto simp: round_even_def Let_def)
  next
    case False
    then have "\<lfloor>x\<rfloor> + 1 \<le> \<lfloor>y\<rfloor>" using fl by linarith
    moreover have "round_even x \<le> \<lfloor>x\<rfloor> + 1" by (auto simp: round_even_def Let_def)
    moreover have "\<lfloor>y\<rfloor> \<le> round_even y" by (auto simp: round_even_def Let_def)
    ultimately show ?thesis by linarith
  qed
qed

lemma floor_log2_eq:
  assumes "2 powr of_int e \<le> x" "x < 2 powr (of_int e + 1)"
  shows "\<lfloor>log 2 x\<rfloor> = e"
proof -
  have pos: "0 < x" using assms(1) by (smt (verit) powr_gt_zero)
  have "of_int e \<le> log 2 x" using assms(1) pos by (simp add: le_log_iff)
  moreover have "log 2 x < of_int e + 1" using assms(2) pos by (simp add: log_less_iff)
  ultimately show ?thesis by linarith
qed

lemma ulp_pos: "0 < ulp x" by (simp add: ulp_def)

lemma ulp_binade:
  assumes "2 powr of_int e \<le> \<bar>x\<bar>" "\<bar>x\<bar> < 2 powr (of_int e + 1)"
  shows "ulp x = 2 powr (of_int e - 52)"
  using floor_log2_eq[OF assms] by (simp add: ulp_def)

lemma binade_exists:
  assumes "x \<noteq> 0"
  shows "2 powr of_int \<lfloor>log 2 \<bar>x\<bar>\<rfloor> \<le> \<bar>x\<bar> \<and> \<bar>x\<bar> < 2 powr (of_int \<lfloor>log 2 \<bar>x\<bar>\<rfloor> + 1)"
proof -
  have pos: "0 < \<bar>x\<bar>" using assms by simp
  have le: "2 powr y \<le> \<bar>x\<bar>" if "y \<le> log 2 \<bar>x\<bar>" for y
    using that pos by (simp add: le_log_iff)
  have lt: "\<bar>x\<bar> < 2 powr y" if "log 2 \<bar>x\<bar> < y" for y
    using that pos by (simp add: log_less_iff)
  have a: "2 powr of_int \<lfloor>log 2 \<bar>x\<bar>\<rfloor> \<le> \<bar>x\<bar>" by (rule le) simp
  have b: "\<bar>x\<bar> < 2 powr (of_int \<lfloor>log 2 \<bar>x\<bar>\<rfloor> + 1)" by (rule lt) linarith
  from a b show ?thesis by simp
qed

lemma round_double_repr:
  assumes m: "\<bar>m\<bar> < 2 ^ 53"
  shows "round_double (of_int m * 2 powr of_int k) = of_int m * 2 powr of_int k"
proof (cases "m = 0")
  case True
  then show ?thesis by (simp add: round_double_def)
next
  case False
  define x :: real where "x = of_int m * 2 powr of_int k"
  have x0: "x \<noteq> 0" using False by (simp add: x_def)
  define e where "e = \<lfloor>log 2 \<bar>x\<bar>\<rfloor>"
  have absx: "\<bar>x\<bar> = of_int \<bar>m\<bar> * 2 powr of_int k" by (simp add: x_def abs_mult)
  have "of_int \<bar>m\<bar> < (2::real) ^ 53" using m by (metis of_int_less_numeral_power_cancel_iff)
  then have "\<bar>x\<bar> < 2 ^ 53 * 2 powr of_int k" unfolding absx by (simp)
  also have "\<dots> = 2 powr (53 + of_int k)" by (simp add: powr_add)
  finally have lt: "\<bar>x\<bar> < 2 powr (53 + of_int k)" .
  have "log 2 \<bar>x\<bar> < 53 + of_int k" using lt x0 by (simp add: log_less_iff)
  then have ele: "e \<le> 52 + k" unfolding e_def by linarith
  define j where "j = nat (52 + k - e)"
  have j: "int j = 52 + k - e" using ele by (simp add: j_def)
  have u: "ulp x = 2 powr (of_int e - 52)" by (simp add: ulp_def e_def)
  have "x / ulp x = x / 2 powr (of_int e - 52)" by (simp only: u)
  also have "\<dots> = of_int m * 2 powr (of_int k - (of_int e - 52))"
    by (simp add: x_def powr_diff)
  also have "of_int k - (of_int e - 52) = (real j)" using j by linarith
  also have "of_int m * 2 powr (real j) = of_int (m * 2 ^ j)" by (simp add: powr_realpow)
  finally have q: "x / ulp x = of_int (m * 2 ^ j)" .
  have "round_double x = of_int (m * 2 ^ j) * ulp x"
    using x0 by (simp add: round_double_def q round_even_of_int del: of_int_mult of_int_power)
  also have "\<dots> = x" using q ulp_pos[of x] by (metis nonzero_divide_eq_eq less_irrefl)
  finally show ?thesis by (simp add: x_def)
qed

lemma round_double_of_int: "\<bar>m\<bar> < 2 ^ 53 \<Longrightarrow> round_double (of_int m) = of_int m"
  using round_double_repr[of m 0] by simp

lemma round_double_binade:
  assumes "2 powr of_int e \<le> x" "x < 2 powr (of_int e + 1)"
  shows "round_double x = of_int (round_even (x / 2 powr (of_int e - 52))) * 2 powr (of_int e - 52)"
proof -
  have pos: "0 < x" using assms(1) by (smt (verit) powr_gt_zero)
  then have "\<bar>x\<bar> = x" by simp
  then have "ulp x = 2 powr (of_int e - 52)" using ulp_binade[of e x] assms by simp
  then show ?thesis using pos by (simp add: round_double_def)
qed

lemma round_double_binade_bounds:
  assumes "2 powr of_int e \<le> x" "x < 2 powr (of_int e + 1)"
  shows "2 powr of_int e \<le> round_double x \<and> round_double x \<le> 2 powr (of_int e + 1)"
proof -
  define u :: real where "u = 2 powr (of_int e - 52)"
  have u0: "0 < u" by (simp add: u_def)
  have lo: "2 powr of_int e = of_int (2 ^ 52) * u" unfolding u_def by (simp add: powr_diff)
  have hi: "2 powr (of_int e + 1) = of_int (2 ^ 53) * u" unfolding u_def by (simp add: powr_diff powr_add)
  have "of_int (2 ^ 52) \<le> x / u" using assms(1) lo u0 by (simp add: le_divide_eq)
  then have a: "2 ^ 52 \<le> round_even (x / u)" using round_even_mono round_even_of_int by metis
  have "x / u \<le> of_int (2 ^ 53)" using assms(2) hi u0 by (simp add: divide_le_eq)
  then have b: "round_even (x / u) \<le> 2 ^ 53" using round_even_mono round_even_of_int by metis
  have r: "round_double x = of_int (round_even (x / u)) * u"
    using round_double_binade[OF assms] by (simp add: u_def)
  have "of_int (2 ^ 52) * u \<le> of_int (round_even (x / u)) * u"
    using a u0 by (simp only: mult_le_cancel_right_pos of_int_le_iff)
  moreover have "of_int (round_even (x / u)) * u \<le> of_int (2 ^ 53) * u"
    using b u0 by (simp only: mult_le_cancel_right_pos of_int_le_iff)
  ultimately show ?thesis unfolding r lo hi by simp
qed

lemma round_double_nonneg: "0 \<le> x \<Longrightarrow> 0 \<le> round_double x"
proof (cases "x = 0")
  case True then show ?thesis by (simp add: round_double_def)
next
  case False
  assume "0 \<le> x"
  then have "\<bar>x\<bar> = x" by simp
  then have "2 powr of_int \<lfloor>log 2 \<bar>x\<bar>\<rfloor> \<le> x \<and> x < 2 powr (of_int \<lfloor>log 2 \<bar>x\<bar>\<rfloor> + 1)"
    using binade_exists[OF False] by simp
  then have "2 powr of_int \<lfloor>log 2 \<bar>x\<bar>\<rfloor> \<le> round_double x"
    using round_double_binade_bounds by blast
  then show ?thesis by (smt (verit) powr_gt_zero)
qed

lemma round_double_mono:
  assumes "0 \<le> x" "x \<le> y"
  shows "round_double x \<le> round_double y"
proof (cases "x = 0")
  case True
  then show ?thesis using round_double_nonneg[of y] assms by (simp add: round_double_def)
next
  case False
  then have x0: "0 < x" and y0: "0 < y" using assms by auto
  define ex where "ex = \<lfloor>log 2 \<bar>x\<bar>\<rfloor>"
  define ey where "ey = \<lfloor>log 2 \<bar>y\<bar>\<rfloor>"
  have bx: "2 powr of_int ex \<le> x \<and> x < 2 powr (of_int ex + 1)"
    using binade_exists[of x] x0 by (simp add: ex_def)
  have by': "2 powr of_int ey \<le> y \<and> y < 2 powr (of_int ey + 1)"
    using binade_exists[of y] y0 by (simp add: ey_def)
  have "log 2 x \<le> log 2 y" using x0 assms(2) by simp
  then have le: "ex \<le> ey" using x0 y0 by (simp add: ex_def ey_def floor_mono)
  show ?thesis
  proof (cases "ex = ey")
    case True
    define u :: real where "u = 2 powr (of_int ey - 52)"
    have u0: "0 < u" by (simp add: u_def)
    have rx: "round_double x = of_int (round_even (x / u)) * u"
      using round_double_binade[of ex x] bx True by (simp add: u_def)
    have ry: "round_double y = of_int (round_even (y / u)) * u"
      using round_double_binade[of ey y] by' by (simp add: u_def)
    have "x / u \<le> y / u" using assms(2) u0 by (simp add: divide_right_mono)
    then have "round_even (x / u) \<le> round_even (y / u)" by (rule round_even_mono)
    then show ?thesis unfolding rx ry using u0 by (simp only: mult_le_cancel_right_pos of_int_le_iff)
  next
    case False
    then have "ex + 1 \<le> ey" using le by simp
    then have "(2::real) powr (of_int ex + 1) \<le> 2 powr of_int ey"
      by (metis (mono_tags) of_int_le_iff of_int_add of_int_1 powr_mono one_le_numeral)
    moreover have "round_double x \<le> 2 powr (of_int ex + 1)"
      using round_double_binade_bounds[of ex x] bx by simp
    moreover have "2 powr of_int ey \<le> round_double y"
      using round_double_binade_bounds[of ey y] by' by simp
    ultimately show ?thesis by linarith
  qed
qed


lemma round_double_twice:
  assumes "is_double r"
  shows "round_double (r * 2) = r * 2"
proof (cases "r = 0")
  case True
  then show ?thesis by (simp add: round_double_def)
next
  case False
  have pos: "0 < \<bar>r\<bar>" using False by simp
  have "log 2 \<bar>r * 2\<bar> = log 2 \<bar>r\<bar> + 1" using pos by (simp add: abs_mult log_mult)
  then have "\<lfloor>log 2 \<bar>r * 2\<bar>\<rfloor> = \<lfloor>log 2 \<bar>r\<bar>\<rfloor> + 1" by simp
  then have u: "ulp (r * 2) = ulp r * 2" by (simp add: ulp_def powr_add powr_diff)
  have "round_double (r * 2) = of_int (round_even (r / ulp r)) * (ulp r * 2)"
    using False ulp_pos[of r] by (simp add: round_double_def u)
  also have "\<dots> = round_double r * 2" using False by (simp add: round_double_def)
  finally show ?thesis using assms by (simp add: is_double_def)
qed




lemma round_double_le_6:
  assumes "0 \<le> x" "x \<le> 6"
  shows "0 \<le> round_double x \<and> round_double x \<le> 6"
proof -
  have "round_double x \<le> round_double 6" using assms by (rule round_double_mono)
  also have "round_double 6 = 6" using round_double_of_int[of 6] by simp
  finally show ?thesis using round_double_nonneg[OF assms(1)] by simp
qed

lemma round_double_le_2:
  assumes "0 \<le> x" "x \<le> 2"
  shows "0 \<le> round_double x \<and> round_double x \<le> 2"
proof -
  have "round_double x \<le> round_double 2" using assms by (rule round_double_mono)
  also have "round_double 2 = 2" using round_double_of_int[of 2] by simp
  finally show ?thesis using round_double_nonneg[OF assms(1)] by simp
qed

lemma round_double_ratio:
  assumes "\<bar>m\<bar> < 2 ^ 53"
  shows "round_double (of_int m / 2 ^ k) = of_int m / 2 ^ k"
proof -
  have "(2::real) powr of_int (- int k) = 1 / 2 ^ k"
    by (simp add: powr_minus_divide powr_realpow)
  then show ?thesis using round_double_repr[OF assms, of "- int k"] by simp
qed


section \<open>Facts about the scorer\<close>

lemma getHours_range: "0 \<le> getHours P t \<and> getHours P t < 24"
  by (simp add: getHours_def)

lemma spec_night_eq: "spec_night (getHours P t) = (if getHours P t \<ge> 22 \<or> getHours P t \<le> 4 then 1 else 0)"
proof -
  have "0 \<le> getHours P t \<and> getHours P t < 24" by (rule getHours_range)
  then show ?thesis unfolding spec_night_def night_hours_def by simp
qed

lemma spec_tier_eq:
  "spec_tier a = (if num_gt a 100000 then 3 else if num_gt a 50000 then 2 else if num_gt a 10000 then 1 else 0)"
  by (cases a) (auto simp: spec_tier_def amount_tiers_def num_gt_def)

lemma round_double_small [simp]:
  "round_double 1 = 1" "round_double 2 = 2" "round_double 3 = 3" "round_double 4 = 4"
  using round_double_of_int[of 1] round_double_of_int[of 2] round_double_of_int[of 3]
    round_double_of_int[of 4] by simp_all

lemma calculateRiskScore_spec:
  assumes "rounding P = round_double"
  shows "calculateRiskScore P r tx = spec_score P r tx"
  unfolding calculateRiskScore_def spec_score_def Let_def spec_night_eq spec_tier_eq
  by (simp add: fadd_def assms)

lemma base_le_4: "spec_tier a + spec_night h \<le> 4"
  by (simp add: spec_tier_eq spec_night_def)

lemma jitter_range:
  assumes "0 \<le> r" "r < 1"
  shows "0 \<le> round_double (r * 2) \<and> round_double (r * 2) \<le> 2"
  using round_double_le_2[of "r * 2"] assms by simp

lemma score_bounds:
  assumes P: "rounding P = round_double" and r: "0 \<le> r" "r < 1"
  shows "0 \<le> fadd P (real (spec_tier a + spec_night h)) (fmul P r 2)"
    and "fadd P (real (spec_tier a + spec_night h)) (fmul P r 2) \<le> 6"
proof -
  let ?b = "real (spec_tier a + spec_night h)"
  have b: "0 \<le> ?b" "?b \<le> 4" using base_le_4[of a h] by simp_all
  have j: "0 \<le> round_double (r * 2)" "round_double (r * 2) \<le> 2" using jitter_range[OF r] by simp_all
  have "0 \<le> ?b + round_double (r * 2)" "?b + round_double (r * 2) \<le> 6" using b j by linarith+
  then have "0 \<le> round_double (?b + round_double (r * 2)) \<and> round_double (?b + round_double (r * 2)) \<le> 6"
    by (rule round_double_le_6)
  then show "0 \<le> fadd P ?b (fmul P r 2)" "fadd P ?b (fmul P r 2) \<le> 6"
    by (simp_all add: fadd_def fmul_def P)
qed



section \<open>Facts about the concrete inputs\<close>

lemma parse_150000: "parseFloat utc_platform (amount tx_A) = Some 150000"
  by (simp add: utc_platform_def tx_A_def parseDecimal_def)

lemma hours_A: "getHours utc_platform (timestamp tx_A) = 3"
  by (simp add: utc_platform_def tx_A_def getHours_def)

lemma is_double_quarter: "is_double (1 / 4)"
  using round_double_ratio[of 1 2] by (simp add: is_double_def)

lemma utc_rounding: "rounding utc_platform = round_double"
  by (simp add: utc_platform_def)

lemma score_A_sum:
  "calculateRiskScore utc_platform r tx_A = min 10 (max 0 (round_double (4 + round_double (r * 2))))"
  by (simp add: calculateRiskScore_spec[OF utc_rounding] spec_score_def parse_150000 hours_A
      spec_tier_eq spec_night_def night_hours_def num_gt_def fadd_def fmul_def utc_rounding)

lemma score_A: "calculateRiskScore utc_platform (1 / 4) tx_A = 9 / 2"
proof -
  have a: "round_double (1 / 2) = 1 / 2" using round_double_ratio[of 1 1] by simp
  have b: "round_double (9 / 2) = 9 / 2" using round_double_ratio[of 9 1] by simp
  have t: "(1 / 4 :: real) * 2 = 1 / 2" "(4 :: real) + 1 / 2 = 9 / 2" by simp_all
  have "round_double (4 + round_double (1 / 4 * 2)) = 9 / 2" by (simp only: t a b)
  then show ?thesis unfolding score_A_sum by simp
qed


section \<open>Facts about the wallet aggregator\<close>

lemma find_map_preserved:
  assumes "\<And>x. P (f x) = P x"
  shows "find P (map f xs) = map_option f (find P xs)"
  by (induction xs) (simp_all add: assms)

lemma find_append_new:
  assumes "find P xs = None" "P y"
  shows "find P (xs @ [y]) = Some y"
  using assms by (induction xs) (simp_all split: if_splits)

lemma profileOf_create:
  assumes "profileOf addr s = None"
  shows "profileOf addr (updateWalletProfile P addr tx s) =
           Some \<lparr>w_id = nextId s, address = addr, totalTransactions = 1,
                  totalValue = amount tx, averageRiskScore = riskScore tx,
                  firstSeen = timestamp tx, lastSeen = timestamp tx, tags = [],
                  riskLevel = tier (riskScore tx),
                  timePattern = [(getHours P (timestamp tx), 1)],
                  amountPattern = Some (getAmountRange (parseFloat P (amount tx)))\<rparr>"
  using assms unfolding profileOf_def updateWalletProfile_def
  by (simp add: find_append_new)

lemma profileOf_update:
  assumes "profileOf addr s = Some e"
  shows "profileOf addr (updateWalletProfile P addr tx s) =
           Some (e\<lparr>totalTransactions := totalTransactions e + 1,
                   totalValue := numToString P
                     (num_add P (parseFloat P (totalValue e)) (parseFloat P (amount tx))),
                   averageRiskScore :=
                     fdiv P (fadd P (fmul P (averageRiskScore e) (real (totalTransactions e)))
                                    (riskScore tx))
                            (real (totalTransactions e + 1)),
                   lastSeen := timestamp tx,
                   riskLevel := tier
                     (fdiv P (fadd P (fmul P (averageRiskScore e) (real (totalTransactions e)))
                                     (riskScore tx))
                             (real (totalTransactions e + 1)))\<rparr>)"
  using assms unfolding profileOf_def updateWalletProfile_def
  by (simp add: find_map_preserved Let_def)

lemma fold_existing:
  assumes "rounding P = (\<lambda>x. x)"
  shows "profileOf addr s = Some e \<Longrightarrow>
     \<exists>p. profileOf addr (foldl (\<lambda>s' tx. updateWalletProfile P addr tx s') s txs) = Some p
        \<and> totalTransactions p = totalTransactions e + length txs
        \<and> averageRiskScore p * real (totalTransactions p)
            = averageRiskScore e * real (totalTransactions e) + sum_list (map riskScore txs)"
proof (induction txs arbitrary: s e)
  case Nil
  then show ?case by simp
next
  case (Cons tx txs)
  let ?e' = "e\<lparr>totalTransactions := totalTransactions e + 1,
                   totalValue := numToString P
                     (num_add P (parseFloat P (totalValue e)) (parseFloat P (amount tx))),
                   averageRiskScore :=
                     fdiv P (fadd P (fmul P (averageRiskScore e) (real (totalTransactions e)))
                                    (riskScore tx))
                            (real (totalTransactions e + 1)),
                   lastSeen := timestamp tx,
                   riskLevel := tier
                     (fdiv P (fadd P (fmul P (averageRiskScore e) (real (totalTransactions e)))
                                     (riskScore tx))
                             (real (totalTransactions e + 1)))\<rparr>"
  have step: "profileOf addr (updateWalletProfile P addr tx s) = Some ?e'"
    using Cons.prems by (rule profileOf_update)
  have avg: "averageRiskScore ?e' * real (totalTransactions ?e')
               = averageRiskScore e * real (totalTransactions e) + riskScore tx"
    by (simp add: fdiv_def fadd_def fmul_def assms)
  obtain p where p: "profileOf addr (foldl (\<lambda>s' tx. updateWalletProfile P addr tx s')
                        (updateWalletProfile P addr tx s) txs) = Some p"
      "totalTransactions p = totalTransactions ?e' + length txs"
      "averageRiskScore p * real (totalTransactions p)
         = averageRiskScore ?e' * real (totalTransactions ?e') + sum_list (map riskScore txs)"
    using Cons.IH[OF step] by blast
  show ?case
    apply (rule exI[of _ p])
    using p avg by simp
qed

lemma fold_fresh:
  assumes P: "rounding P = (\<lambda>x. x)" and ne: "txs \<noteq> []" and fresh: "profileOf addr s = None"
  shows "\<exists>p. profileOf addr (foldl (\<lambda>s' tx. updateWalletProfile P addr tx s') s txs) = Some p
        \<and> totalTransactions p = length txs
        \<and> averageRiskScore p = sum_list (map riskScore txs) / real (length txs)"
proof -
  obtain tx rest where txs: "txs = tx # rest" using ne by (cases txs) auto
  let ?e = "\<lparr>w_id = nextId s, address = addr, totalTransactions = 1,
                  totalValue = amount tx, averageRiskScore = riskScore tx,
                  firstSeen = timestamp tx, lastSeen = timestamp tx, tags = [],
                  riskLevel = tier (riskScore tx),
                  timePattern = [(getHours P (timestamp tx), 1)],
                  amountPattern = Some (getAmountRange (parseFloat P (amount tx)))\<rparr>"
  have c: "profileOf addr (updateWalletProfile P addr tx s) = Some ?e"
    using fresh by (rule profileOf_create)
  obtain p where p: "profileOf addr (foldl (\<lambda>s' tx. updateWalletProfile P addr tx s')
                        (updateWalletProfile P addr tx s) rest) = Some p"
      "totalTransactions p = totalTransactions ?e + length rest"
      "averageRiskScore p * real (totalTransactions p)
         = averageRiskScore ?e * real (totalTransactions ?e) + sum_list (map riskScore rest)"
    using fold_existing[OF P c, of rest] by blast
  have n: "totalTransactions p = length txs" using p(2) txs by simp
  have "averageRiskScore p * real (length txs) = sum_list (map riskScore txs)"
    using p(3) n txs by simp
  then have "averageRiskScore p = sum_list (map riskScore txs) / real (length txs)"
    using ne by (simp add: field_simps)
  then show ?thesis using p(1) n txs by auto
qed

lemma profileOf_after_update_tier:
  "case profileOf addr (updateWalletProfile P addr tx s) of
     None \<Rightarrow> False | Some p \<Rightarrow> riskLevel p = tier (averageRiskScore p)"
proof (cases "profileOf addr s")
  case None
  then show ?thesis by (simp add: profileOf_create)
next
  case (Some e)
  then show ?thesis by (simp add: profileOf_update)
qed

lemma exact_rounding: "rounding exact_platform = (\<lambda>x. x)"
  by (simp add: exact_platform_def)

lemma state_0_fresh: "profileOf addr state_0 = None"
  by (simp add: profileOf_def state_0_def)

lemma unanalyzed_A:
  "take 50 (filter (\<lambda>t. analyzedAt t = None \<and> riskScore t \<le> 0) (transactions state_A)) = [tx_A]"
  by (simp add: state_A_def state_0_def tx_A_def)

lemma state_A_fresh: "profileOf addr (s\<lparr>walletProfiles := []\<rparr>) = None"
  by (simp add: profileOf_def)

lemma profileOf_cong_fields: "walletProfiles s = walletProfiles s' \<Longrightarrow> profileOf a s = profileOf a s'"
  by (simp add: profileOf_def)

section \<open>Claims about the risk tier and the risk scorer\<close>

text \<open>
  C10. The step function that gives \<open>WalletProfile.riskLevel\<close> is non-decreasing in the score
  and has inclusive lower thresholds, checked from the highest: it is \<open>critical\<close> exactly for
  scores of at least 8, \<open>high\<close> exactly from 6 up to 8, \<open>medium\<close> exactly from 4 up to 6, and
  \<open>low\<close> below 4; the boundaries 4, 6 and 8 give \<open>medium\<close>, \<open>high\<close> and \<open>critical\<close>. After
  \<open>updateWalletProfile\<close> the profile of the address carries the tier of its average score.
\<close>

theorem tier_monotone_inclusive:
  "(x \<le> y \<longrightarrow> level_rank (tier x) \<le> level_rank (tier y))
   \<and> (tier x = critical \<longleftrightarrow> 8 \<le> x)
   \<and> (tier x = high \<longleftrightarrow> 6 \<le> x \<and> x < 8)
   \<and> (tier x = medium \<longleftrightarrow> 4 \<le> x \<and> x < 6)
   \<and> (tier x = low \<longleftrightarrow> x < 4)
   \<and> tier 4 = medium \<and> tier 6 = high \<and> tier 8 = critical
   \<and> (case profileOf addr (updateWalletProfile P addr tx s) of
         None \<Rightarrow> False | Some p \<Rightarrow> riskLevel p = tier (averageRiskScore p))"
proof -
  have mono: "x \<le> y \<longrightarrow> level_rank (tier x) \<le> level_rank (tier y)"
    by (simp add: tier_def level_rank_def)
  have iffs: "(tier x = critical \<longleftrightarrow> 8 \<le> x)" "(tier x = high \<longleftrightarrow> 6 \<le> x \<and> x < 8)"
    "(tier x = medium \<longleftrightarrow> 4 \<le> x \<and> x < 6)" "(tier x = low \<longleftrightarrow> x < 4)"
    by (auto simp: tier_def)
  have bnd: "tier 4 = medium" "tier 6 = high" "tier 8 = critical"
    by (simp_all add: tier_def)
  show ?thesis using mono iffs bnd profileOf_after_update_tier[of addr P tx s] by blast
qed

theorem tier_monotone_inclusive_witness:
  "(59 / 10 :: real) \<le> 6 \<and> level_rank (tier (59 / 10)) \<le> level_rank (tier 6)
   \<and> tier (59 / 10) = medium \<and> tier 6 = high
   \<and> (case profileOf ''0xf00'' (updateWalletProfile utc_platform ''0xf00'' tx_A state_A) of
         None \<Rightarrow> False | Some p \<Rightarrow> riskLevel p = tier (averageRiskScore p))"
  using tier_monotone_inclusive[of "59 / 10" 6 "''0xf00''" utc_platform tx_A state_A]
  by (simp add: tier_def)








text \<open>
  C9. With the jitter as a parameter, \<open>calculateRiskScore\<close> computes what section 4.2 says:
  base 0, plus the highest applicable amount tier, plus 1 for a local hour in
  \<open>{22, 23, 0, 1, 2, 3, 4}\<close>, plus the jitter, clamped to \<open>[0, 10]\<close>. The jitter of a double
  \<open>r\<close> in \<open>[0, 1)\<close> is \<open>2r\<close>, in \<open>[0, 2)\<close>. For amount 150000 at hour 3 the result is the
  program's sum of 4 and the jitter.
\<close>

theorem calculateRiskScore_refines_spec:
  assumes "rounding P = round_double"
  shows "calculateRiskScore P r tx = spec_score P r tx
       \<and> 0 \<le> calculateRiskScore P r tx \<and> calculateRiskScore P r tx \<le> 10
       \<and> (0 \<le> r \<and> r < 1 \<and> is_double r \<longrightarrow>
            fmul P r 2 = 2 * r \<and> 0 \<le> fmul P r 2 \<and> fmul P r 2 < 2)
       \<and> (parseFloat P (amount tx) = Some 150000 \<and> getHours P (timestamp tx) = 3
            \<and> 0 \<le> r \<and> r < 1 \<longrightarrow>
            calculateRiskScore P r tx = fadd P 4 (fmul P r 2))"
proof -
  have eq: "calculateRiskScore P r tx = spec_score P r tx"
    using assms by (rule calculateRiskScore_spec)
  have rng: "0 \<le> spec_score P r tx \<and> spec_score P r tx \<le> 10"
    by (simp add: spec_score_def)
  have jit: "fmul P r 2 = 2 * r \<and> 0 \<le> fmul P r 2 \<and> fmul P r 2 < 2"
    if "0 \<le> r \<and> r < 1 \<and> is_double r"
    using that round_double_twice[of r] by (simp add: fmul_def assms mult.commute)
  have ex: "calculateRiskScore P r tx = fadd P 4 (fmul P r 2)"
    if h: "parseFloat P (amount tx) = Some 150000 \<and> getHours P (timestamp tx) = 3 \<and> 0 \<le> r \<and> r < 1"
  proof -
    have b: "real (spec_tier (parseFloat P (amount tx)) + spec_night (getHours P (timestamp tx))) = 4"
      using h by (simp add: spec_tier_eq spec_night_def night_hours_def num_gt_def)
    have "0 \<le> fadd P 4 (fmul P r 2)" "fadd P 4 (fmul P r 2) \<le> 6"
      using score_bounds[OF assms, of r "parseFloat P (amount tx)" "getHours P (timestamp tx)"] h
      unfolding b by simp_all
    then show ?thesis unfolding eq spec_score_def b by simp
  qed
  show ?thesis using eq rng jit ex by simp
qed

theorem calculateRiskScore_refines_spec_witness:
  "rounding utc_platform = round_double
   \<and> calculateRiskScore utc_platform (1 / 4) tx_A = spec_score utc_platform (1 / 4) tx_A
   \<and> fmul utc_platform (1 / 4) 2 = 2 * (1 / 4)
   \<and> parseFloat utc_platform (amount tx_A) = Some 150000
   \<and> getHours utc_platform (timestamp tx_A) = 3
   \<and> calculateRiskScore utc_platform (1 / 4) tx_A
       = fadd utc_platform 4 (fmul utc_platform (1 / 4) 2)"
  using calculateRiskScore_refines_spec[of utc_platform "1 / 4" tx_A]
    is_double_quarter utc_rounding parse_150000 hours_A
  by simp

section \<open>Rounding error of the running mean\<close>

lemma round_even_half: "\<bar>of_int (round_even y) - y\<bar> \<le> 1 / 2"
  unfolding round_even_def Let_def by (auto; linarith)

lemma round_double_rel: "rel_rounding (1 / 2 ^ 53) round_double"
  unfolding rel_rounding_def
proof
  fix x :: real
  show "\<bar>round_double x - x\<bar> \<le> 1 / 2 ^ 53 * \<bar>x\<bar>"
  proof (cases "x = 0")
    case True
    then show ?thesis by (simp add: round_double_def)
  next
    case False
    define e where "e = \<lfloor>log 2 \<bar>x\<bar>\<rfloor>"
    have u: "ulp x = 2 powr (of_int e - 52)" by (simp add: ulp_def e_def)
    have u0: "0 < ulp x" by (rule ulp_pos)
    have lo: "2 powr of_int e \<le> \<bar>x\<bar>" using binade_exists[OF False] by (simp add: e_def)
    have "round_double x - x = (of_int (round_even (x / ulp x)) - x / ulp x) * ulp x"
      using False u0 by (simp add: round_double_def field_simps)
    then have "\<bar>round_double x - x\<bar> = \<bar>of_int (round_even (x / ulp x)) - x / ulp x\<bar> * ulp x"
      using u0 by (simp add: abs_mult)
    also have "\<dots> \<le> 1 / 2 * ulp x"
      using round_even_half[of "x / ulp x"] u0 by (intro mult_right_mono) simp_all
    also have "\<dots> = 1 / 2 ^ 53 * 2 powr of_int e"
      unfolding u by (simp add: powr_diff)
    also have "\<dots> \<le> 1 / 2 ^ 53 * \<bar>x\<bar>" using lo by (intro mult_left_mono) simp_all
    finally show ?thesis .
  qed
qed

lemma round_step:
  assumes R: "rel_rounding u R" and u: "0 \<le> u" and E: "0 \<le> E" and c: "0 \<le> c"
    and d: "\<bar>x - y\<bar> \<le> E * c" and y: "0 \<le> y" "y \<le> M * c"
  shows "\<bar>R x - y\<bar> \<le> (u * M + (1 + u) * E) * c"
proof -
  have "\<bar>x\<bar> \<le> \<bar>y\<bar> + \<bar>x - y\<bar>" by simp
  also have "\<dots> \<le> M * c + E * c" using d y by simp
  finally have x: "\<bar>x\<bar> \<le> M * c + E * c" .
  have "\<bar>R x - y\<bar> \<le> \<bar>R x - x\<bar> + \<bar>x - y\<bar>" by simp
  also have "\<dots> \<le> u * \<bar>x\<bar> + E * c" using R d by (simp add: rel_rounding_def add_mono)
  also have "\<dots> \<le> u * (M * c + E * c) + E * c" using x u by (simp add: mult_left_mono)
  also have "\<dots> = (u * M + (1 + u) * E) * c" by (simp add: algebra_simps)
  finally show ?thesis .
qed

lemma err_bound_step: "u * M + (1 + u) * err_bound u M j = err_bound u M (Suc j)"
  by (simp add: err_bound_def algebra_simps)

lemma err_bound_nonneg: "0 \<le> u \<Longrightarrow> 0 \<le> M \<Longrightarrow> 0 \<le> err_bound u M j"
  by (simp add: err_bound_def)

lemma average_step:
  assumes R: "rel_rounding u R" and u: "0 \<le> u" and M: "0 \<le> M"
    and a: "\<bar>a - S / real k\<bar> \<le> err_bound u M j" and k: "0 < k"
    and S: "0 \<le> S" "S \<le> M * real k" and s: "0 \<le> sc" "sc \<le> M"
  shows "\<bar>R (R (R (a * real k) + sc) / real (k + 1)) - (S + sc) / real (k + 1)\<bar>
           \<le> err_bound u M (j + 3)"
proof -
  have k0: "0 < real k" using k by simp
  have e0: "0 \<le> err_bound u M j" "0 \<le> err_bound u M (Suc j)" "0 \<le> err_bound u M (Suc (Suc j))"
    using u M by (simp_all add: err_bound_nonneg)
  have "\<bar>a * real k - S\<bar> = \<bar>a - S / real k\<bar> * real k"
    using k0 by (simp add: abs_mult[symmetric] field_simps)
  also have "\<dots> \<le> err_bound u M j * real k" using a k0 by (simp add: mult_right_mono)
  finally have d1: "\<bar>a * real k - S\<bar> \<le> err_bound u M j * real k" .
  have p: "\<bar>R (a * real k) - S\<bar> \<le> err_bound u M (Suc j) * real k"
    using round_step[OF R u e0(1) _ d1 S(1) S(2)] k0 by (simp add: err_bound_step)
  have "\<bar>(R (a * real k) + sc) - (S + sc)\<bar> \<le> err_bound u M (Suc j) * real k" using p by simp
  also have "\<dots> \<le> err_bound u M (Suc j) * real (k + 1)" using e0(2) by (simp add: mult_left_mono)
  finally have d2: "\<bar>(R (a * real k) + sc) - (S + sc)\<bar> \<le> err_bound u M (Suc j) * real (k + 1)" .
  have S2: "0 \<le> S + sc" "S + sc \<le> M * real (k + 1)" using S s by (simp_all add: algebra_simps)
  have q: "\<bar>R (R (a * real k) + sc) - (S + sc)\<bar> \<le> err_bound u M (Suc (Suc j)) * real (k + 1)"
    using round_step[OF R u e0(2) _ d2 S2] by (simp add: err_bound_step)
  have "\<bar>R (R (a * real k) + sc) / real (k + 1) - (S + sc) / real (k + 1)\<bar>
          = \<bar>R (R (a * real k) + sc) - (S + sc)\<bar> / real (k + 1)"
    by (simp add: diff_divide_distrib[symmetric])
  also have "\<dots> \<le> err_bound u M (Suc (Suc j))" using q by (simp add: divide_le_eq)
  finally have d3: "\<bar>R (R (a * real k) + sc) / real (k + 1) - (S + sc) / real (k + 1)\<bar>
                     \<le> err_bound u M (Suc (Suc j)) * 1" by simp
  have m: "0 \<le> (S + sc) / real (k + 1)" "(S + sc) / real (k + 1) \<le> M * 1"
    using S2 by (simp_all add: divide_le_eq)
  have "\<bar>R (R (R (a * real k) + sc) / real (k + 1)) - (S + sc) / real (k + 1)\<bar>
          \<le> (u * M + (1 + u) * err_bound u M (Suc (Suc j))) * 1"
    by (rule round_step[OF R u e0(3) _ d3 m]) simp
  then show ?thesis by (simp add: err_bound_step numeral_3_eq_3)
qed

lemma fold_existing_err:
  assumes R: "rel_rounding u (rounding P)" and u: "0 \<le> u" and M: "0 \<le> M"
  shows "profileOf addr s = Some e \<Longrightarrow> 0 < totalTransactions e \<Longrightarrow> 0 \<le> S
     \<Longrightarrow> S \<le> M * real (totalTransactions e)
     \<Longrightarrow> \<bar>averageRiskScore e - S / real (totalTransactions e)\<bar> \<le> err_bound u M j
     \<Longrightarrow> \<forall>tx\<in>set txs. 0 \<le> riskScore tx \<and> riskScore tx \<le> M
     \<Longrightarrow> \<exists>p. profileOf addr (foldl (\<lambda>s' tx. updateWalletProfile P addr tx s') s txs) = Some p
        \<and> totalTransactions p = totalTransactions e + length txs
        \<and> \<bar>averageRiskScore p - (S + sum_list (map riskScore txs)) / real (totalTransactions p)\<bar>
            \<le> err_bound u M (j + 3 * length txs)"
proof (induction txs arbitrary: s e S j)
  case Nil
  then show ?case by simp
next
  case (Cons tx txs)
  let ?k = "totalTransactions e"
  let ?a' = "fdiv P (fadd P (fmul P (averageRiskScore e) (real ?k)) (riskScore tx)) (real (?k + 1))"
  let ?e' = "e\<lparr>totalTransactions := ?k + 1,
                   totalValue := numToString P
                     (num_add P (parseFloat P (totalValue e)) (parseFloat P (amount tx))),
                   averageRiskScore := ?a',
                   lastSeen := timestamp tx,
                   riskLevel := tier ?a'\<rparr>"
  have step: "profileOf addr (updateWalletProfile P addr tx s) = Some ?e'"
    using Cons.prems(1) by (rule profileOf_update)
  have sc: "0 \<le> riskScore tx" "riskScore tx \<le> M" using Cons.prems(6) by simp_all
  have rest: "\<forall>tx\<in>set txs. 0 \<le> riskScore tx \<and> riskScore tx \<le> M" using Cons.prems(6) by simp
  have "\<bar>?a' - (S + riskScore tx) / real (?k + 1)\<bar> \<le> err_bound u M (j + 3)"
    unfolding fdiv_def fadd_def fmul_def
    by (rule average_step[OF R u M Cons.prems(5) Cons.prems(2) Cons.prems(3) Cons.prems(4) sc])
  then have a: "\<bar>averageRiskScore ?e' - (S + riskScore tx) / real (totalTransactions ?e')\<bar>
                 \<le> err_bound u M (j + 3)" by simp
  have S': "0 \<le> S + riskScore tx" "S + riskScore tx \<le> M * real (totalTransactions ?e')"
    using Cons.prems(3,4) sc by (simp_all add: algebra_simps)
  have k': "0 < totalTransactions ?e'" by simp
  obtain p where p: "profileOf addr (foldl (\<lambda>s' tx. updateWalletProfile P addr tx s')
                        (updateWalletProfile P addr tx s) txs) = Some p"
      "totalTransactions p = totalTransactions ?e' + length txs"
      "\<bar>averageRiskScore p - (S + riskScore tx + sum_list (map riskScore txs)) / real (totalTransactions p)\<bar>
         \<le> err_bound u M (j + 3 + 3 * length txs)"
    using Cons.IH[OF step k' S'(1) S'(2) a rest] by blast
  show ?case
    apply (rule exI[of _ p])
    using p by (simp add: add.assoc add.commute add.left_commute)
qed

lemma fold_fresh_err:
  assumes R: "rel_rounding u (rounding P)" and u: "0 \<le> u" and M: "0 \<le> M"
    and ne: "txs \<noteq> []" and fresh: "profileOf addr s = None"
    and sc: "\<forall>tx\<in>set txs. 0 \<le> riskScore tx \<and> riskScore tx \<le> M"
  shows "\<exists>p. profileOf addr (foldl (\<lambda>s' tx. updateWalletProfile P addr tx s') s txs) = Some p
        \<and> totalTransactions p = length txs
        \<and> \<bar>averageRiskScore p - sum_list (map riskScore txs) / real (length txs)\<bar>
            \<le> err_bound u M (3 * (length txs - 1))"
proof -
  obtain tx rest where txs: "txs = tx # rest" using ne by (cases txs) auto
  let ?e = "\<lparr>w_id = nextId s, address = addr, totalTransactions = 1,
                  totalValue = amount tx, averageRiskScore = riskScore tx,
                  firstSeen = timestamp tx, lastSeen = timestamp tx, tags = [],
                  riskLevel = tier (riskScore tx),
                  timePattern = [(getHours P (timestamp tx), 1)],
                  amountPattern = Some (getAmountRange (parseFloat P (amount tx)))\<rparr>"
  have c: "profileOf addr (updateWalletProfile P addr tx s) = Some ?e"
    using fresh by (rule profileOf_create)
  have s0: "0 \<le> riskScore tx" "riskScore tx \<le> M * real (totalTransactions ?e)"
    using sc txs by simp_all
  have a0: "\<bar>averageRiskScore ?e - riskScore tx / real (totalTransactions ?e)\<bar> \<le> err_bound u M 0"
    by (simp add: err_bound_def)
  have rest: "\<forall>tx\<in>set rest. 0 \<le> riskScore tx \<and> riskScore tx \<le> M" using sc txs by simp
  have k: "0 < totalTransactions ?e" by simp
  obtain p where p: "profileOf addr (foldl (\<lambda>s' tx. updateWalletProfile P addr tx s')
                        (updateWalletProfile P addr tx s) rest) = Some p"
      "totalTransactions p = totalTransactions ?e + length rest"
      "\<bar>averageRiskScore p - (riskScore tx + sum_list (map riskScore rest)) / real (totalTransactions p)\<bar>
         \<le> err_bound u M (0 + 3 * length rest)"
    using fold_existing_err[OF R u M c k s0(1) s0(2) a0 rest] by blast
  show ?thesis
    apply (rule exI[of _ p])
    using p txs by simp
qed

lemma power_le_linear:
  fixes x :: real
  assumes "0 \<le> x" "2 * real m * x \<le> 1"
  shows "(1 + x) ^ m \<le> 1 + 2 * real m * x"
  using assms(2)
proof (induction m)
  case 0
  then show ?case by simp
next
  case (Suc m)
  have h: "2 * real m * x \<le> 1" using Suc.prems assms(1) by (simp add: algebra_simps)
  have ih: "(1 + x) ^ m \<le> 1 + 2 * real m * x" using Suc.IH h by simp
  have "(1 + x) ^ Suc m = (1 + x) ^ m * (1 + x)" by simp
  also have "\<dots> \<le> (1 + 2 * real m * x) * (1 + x)"
    using ih assms(1) by (intro mult_right_mono) simp_all
  also have "\<dots> = 1 + 2 * real m * x + x + (2 * real m * x) * x" by (simp add: algebra_simps)
  also have "\<dots> \<le> 1 + 2 * real m * x + x + 1 * x"
    using h assms(1) by (intro add_left_mono mult_right_mono) simp_all
  also have "\<dots> = 1 + 2 * real (Suc m) * x" by (simp add: algebra_simps)
  finally show ?case .
qed

lemma err_bound_double:
  assumes "n \<le> 100000"
  shows "err_bound (1 / 2 ^ 53) 10 (3 * (n - 1)) \<le> 1 / 10 ^ 9"
proof -
  let ?j = "3 * (n - 1)"
  have j: "real ?j \<le> 300000" using assms by simp
  have small: "2 * real ?j * (1 / 2 ^ 53) \<le> 1"
  proof -
    have "2 * real ?j * (1 / 2 ^ 53) \<le> 2 * 300000 * (1 / 2 ^ 53)"
      using j by (intro mult_right_mono mult_left_mono) simp_all
    also have "\<dots> \<le> (1::real)" by simp
    finally show ?thesis .
  qed
  have "(1 + 1 / 2 ^ 53) ^ ?j \<le> 1 + 2 * real ?j * (1 / 2 ^ 53 :: real)"
    by (rule power_le_linear[OF _ small]) simp
  then have "err_bound (1 / 2 ^ 53) 10 ?j \<le> 10 * (2 * real ?j * (1 / 2 ^ 53))"
    by (simp add: err_bound_def)
  also have "\<dots> \<le> 10 * (2 * 300000 * (1 / 2 ^ 53))"
    using j by (intro mult_left_mono mult_right_mono) simp_all
  also have "\<dots> \<le> 1 / 10 ^ 9" by simp
  finally show ?thesis .
qed

section \<open>Absorption in the running mean\<close>

text \<open>
  A double in \<open>[2\<^sup>n, 2\<^sup>n\<^sup>+\<^sup>1)\<close> with \<open>n \<le> 52\<close> is a multiple of \<open>2\<^sup>n\<^sup>-\<^sup>5\<^sup>2\<close>. From \<open>2\<^sup>2\<^sup>4\<close> on the spacing
  is at least \<open>2\<^sup>-\<^sup>2\<^sup>8\<close>, so adding a nonnegative term below \<open>2\<^sup>-\<^sup>2\<^sup>9\<close> (under half the spacing)
  to a natural number there rounds back to that number.
\<close>

lemma round_double_nat_binade:
  assumes "2 ^ n \<le> x" "x < 2 ^ (n + 1)" "n \<le> 52"
  shows "round_double x = of_int (round_even (x * 2 ^ (52 - n))) / 2 ^ (52 - n)"
proof -
  have a: "(2::real) powr of_int (int n) \<le> x" using assms(1) by (simp add: powr_realpow)
  have "(2::real) powr (of_int (int n) + 1) = 2 ^ (n + 1)"
    by (simp add: powr_add powr_realpow)
  then have b: "x < (2::real) powr (of_int (int n) + 1)" using assms(2) by simp
  have e: "of_int (int n) - (52::real) = - real (52 - n)" using assms(3) by simp
  have "(2::real) powr (of_int (int n) - 52) = 2 powr (- real (52 - n))" by (simp only: e)
  also have "\<dots> = 1 / 2 powr real (52 - n)" by (rule powr_minus_divide)
  also have "(2::real) powr real (52 - n) = 2 ^ (52 - n)" by (rule powr_realpow) simp
  finally have c: "(2::real) powr (of_int (int n) - 52) = 1 / 2 ^ (52 - n)" .
  have "round_double x = of_int (round_even (x / (1 / 2 ^ (52 - n)))) * (1 / 2 ^ (52 - n))"
    using round_double_binade[OF a b] by (simp only: c)
  then show ?thesis by simp
qed

lemma round_even_absorb:
  assumes "0 \<le> t" "t < 1 / 2"
  shows "round_even (of_int M + t) = M"
proof -
  have f: "\<lfloor>of_int M + t\<rfloor> = M" using assms by linarith
  show ?thesis unfolding round_even_def Let_def f using assms by simp
qed

lemma round_double_absorb:
  fixes N :: nat
  assumes lo: "2 ^ 24 \<le> N" and hi: "N < 2 ^ 53" and d: "0 \<le> \<delta>" "\<delta> < 1 / 2 ^ 29"
  shows "round_double (real N + \<delta>) = real N"
proof -
  have "1 \<le> N" using lo by simp
  then obtain n where n: "2 ^ n \<le> N" "N < 2 ^ (n + 1)"
    using ex_power_ivl1[of 2 N] by auto
  have lt1: "(2::nat) ^ 24 < 2 ^ (n + 1)" using lo n(2) by linarith
  have "24 < n + 1" by (rule power_less_imp_less_exp[OF _ lt1]) simp
  then have n24: "24 \<le> n" by linarith
  have lt2: "(2::nat) ^ n < 2 ^ 53" using n(1) hi by linarith
  have "n < 53" by (rule power_less_imp_less_exp[OF _ lt2]) simp
  then have n52: "n \<le> 52" by linarith
  have x1: "(2::real) ^ n \<le> real N + \<delta>"
  proof -
    have "real ((2::nat) ^ n) \<le> real N" using n(1) by (simp only: of_nat_le_iff)
    then have "(2::real) ^ n \<le> real N" by simp
    then show ?thesis using d(1) by linarith
  qed
  have x2: "real N + \<delta> < 2 ^ (n + 1)"
  proof -
    have "N + 1 \<le> 2 ^ (n + 1)" using n(2) by simp
    then have "real (N + 1) \<le> real ((2::nat) ^ (n + 1))" by (simp only: of_nat_le_iff)
    then have "real N + 1 \<le> 2 ^ (n + 1)" by simp
    moreover have "\<delta> < 1"
    proof -
      have "(1::real) / 2 ^ 29 \<le> 1" by simp
      then show ?thesis using d(2) by linarith
    qed
    ultimately show ?thesis by linarith
  qed
  define k where "k = 52 - n"
  have k28: "k \<le> 28" using n24 by (simp add: k_def)
  have r: "round_double (real N + \<delta>) = of_int (round_even ((real N + \<delta>) * 2 ^ k)) / 2 ^ k"
    unfolding k_def by (rule round_double_nat_binade[OF x1 x2 n52])
  have t: "\<delta> * 2 ^ k < 1 / 2"
  proof -
    have "(2::real) ^ k \<le> 2 ^ 28" using k28 by (intro power_increasing) simp_all
    then have "\<delta> * 2 ^ k \<le> \<delta> * 2 ^ 28" using d(1) by (intro mult_left_mono)
    also have "\<dots> < 1 / 2 ^ 29 * 2 ^ 28" using d(2) by (intro mult_strict_right_mono) simp_all
    also have "\<dots> = (1 / 2 :: real)" by simp
    finally show ?thesis .
  qed
  have t0: "0 \<le> \<delta> * 2 ^ k" using d(1) by simp
  have "(real N + \<delta>) * 2 ^ k = of_int (int N * 2 ^ k) + \<delta> * 2 ^ k" by (simp add: algebra_simps)
  then have "round_even ((real N + \<delta>) * 2 ^ k) = int N * 2 ^ k"
    using round_even_absorb[OF t0 t, of "int N * 2 ^ k"] by simp
  then show ?thesis unfolding r by simp
qed

text \<open>
  One fold of \<open>updateWalletProfile\<close> on a stored average of exactly 4 and a count \<open>k\<close>: the
  product \<open>4 * k\<close> is exact, the sum \<open>4 * k + (4 + \<delta>)\<close> rounds to \<open>4 * (k + 1)\<close> when \<open>\<delta> = 0\<close> or
  when \<open>\<delta> < 2\<^sup>-\<^sup>2\<^sup>9\<close> and \<open>4 * (k + 1) \<ge> 2\<^sup>2\<^sup>4\<close>, and the quotient is exactly 4 again: the
  excess \<open>\<delta>\<close> of the new score is lost.
\<close>

lemma mean_step_stays_4:
  assumes P: "rounding P = round_double" and k: "k + 1 < 2 ^ 50"
    and d: "0 \<le> \<delta>" "\<delta> = 0 \<or> (\<delta> < 1 / 2 ^ 29 \<and> 2 ^ 22 \<le> k + 1)"
  shows "fdiv P (fadd P (fmul P 4 (real k)) (4 + \<delta>)) (real (k + 1)) = 4"
proof -
  have k53: "4 * (k + 1) < 2 ^ 53"
  proof -
    have "4 * (k + 1) < 4 * 2 ^ 50" using k by simp
    also have "\<dots> \<le> (2::nat) ^ 53" by simp
    finally show ?thesis .
  qed
  have "\<bar>int (4 * k)\<bar> < 2 ^ 53" using k53 by simp
  then have "round_double (of_int (int (4 * k))) = of_int (int (4 * k))" by (rule round_double_of_int)
  then have m: "fmul P 4 (real k) = real (4 * k)" by (simp add: fmul_def P)
  have s: "real (4 * k) + (4 + \<delta>) = real (4 * (k + 1)) + \<delta>" by simp
  have a: "round_double (real (4 * (k + 1)) + \<delta>) = real (4 * (k + 1))"
  proof (cases "\<delta> = 0")
    case True
    have "\<bar>int (4 * (k + 1))\<bar> < 2 ^ 53" using k53 by simp
    then have "round_double (of_int (int (4 * (k + 1)))) = of_int (int (4 * (k + 1)))"
      by (rule round_double_of_int)
    then show ?thesis using True by simp
  next
    case False
    then have h: "\<delta> < 1 / 2 ^ 29" "2 ^ 22 \<le> k + 1" using d(2) by simp_all
    have "(2::nat) ^ 24 = 4 * 2 ^ 22" by simp
    also have "\<dots> \<le> 4 * (k + 1)" using h(2) by simp
    finally have lo: "2 ^ 24 \<le> 4 * (k + 1)" .
    show ?thesis by (rule round_double_absorb[OF lo k53 d(1) h(1)])
  qed
  have ad: "fadd P (fmul P 4 (real k)) (4 + \<delta>) = real (4 * (k + 1))"
    unfolding fadd_def P m s by (rule a)
  have nz: "real (k + 1) \<noteq> 0" by simp
  have "real (4 * (k + 1)) = 4 * real (k + 1)" by simp
  then have "real (4 * (k + 1)) / real (k + 1) = 4 * real (k + 1) / real (k + 1)" by (simp only:)
  also have "\<dots> = 4" using nz by (rule nonzero_mult_div_cancel_right)
  finally have q: "real (4 * (k + 1)) / real (k + 1) = 4" .
  have r4: "round_double 4 = 4" using round_double_of_int[of 4] by simp
  show ?thesis unfolding fdiv_def P ad q by (rule r4)
qed

lemma fold_replicate_stays_4:
  assumes P: "rounding P = round_double" and sc: "riskScore tx = 4 + \<delta>" and d: "0 \<le> \<delta>"
  shows "profileOf addr s = Some e \<Longrightarrow> averageRiskScore e = 4
     \<Longrightarrow> totalTransactions e + m < 2 ^ 50
     \<Longrightarrow> \<delta> = 0 \<or> (\<delta> < 1 / 2 ^ 29 \<and> 2 ^ 22 \<le> totalTransactions e + 1)
     \<Longrightarrow> \<exists>p. profileOf addr (foldl (\<lambda>s' tx. updateWalletProfile P addr tx s') s (replicate m tx)) = Some p
            \<and> averageRiskScore p = 4 \<and> totalTransactions p = totalTransactions e + m"
proof (induction m arbitrary: s e)
  case 0
  then show ?case by simp
next
  case (Suc m)
  let ?k = "totalTransactions e"
  let ?a' = "fdiv P (fadd P (fmul P (averageRiskScore e) (real ?k)) (riskScore tx)) (real (?k + 1))"
  let ?e' = "e\<lparr>totalTransactions := ?k + 1,
                   totalValue := numToString P
                     (num_add P (parseFloat P (totalValue e)) (parseFloat P (amount tx))),
                   averageRiskScore := ?a',
                   lastSeen := timestamp tx,
                   riskLevel := tier ?a'\<rparr>"
  have step: "profileOf addr (updateWalletProfile P addr tx s) = Some ?e'"
    using Suc.prems(1) by (rule profileOf_update)
  have k: "?k + 1 < 2 ^ 50" using Suc.prems(3) by simp
  have a: "?a' = 4"
    unfolding Suc.prems(2) sc by (rule mean_step_stays_4[OF P k d Suc.prems(4)])
  have avg: "averageRiskScore ?e' = 4" using a by simp
  have bound: "totalTransactions ?e' + m < 2 ^ 50" using Suc.prems(3) by simp
  have cond: "\<delta> = 0 \<or> (\<delta> < 1 / 2 ^ 29 \<and> 2 ^ 22 \<le> totalTransactions ?e' + 1)"
    using Suc.prems(4) by auto
  obtain p where p: "profileOf addr (foldl (\<lambda>s' tx. updateWalletProfile P addr tx s')
                        (updateWalletProfile P addr tx s) (replicate m tx)) = Some p"
      "averageRiskScore p = 4" "totalTransactions p = totalTransactions ?e' + m"
    using Suc.IH[OF step avg bound cond] by blast
  show ?case
    apply (rule exI[of _ p])
    using p by simp
qed

lemma drift_general:
  assumes P: "rounding P = round_double" and fresh: "profileOf addr s = None"
    and s0: "riskScore t0 = 4" and s1: "riskScore t1 = 4 + \<delta>" and d: "0 \<le> \<delta>" "\<delta> < 1 / 2 ^ 29"
    and K: "2 ^ 22 \<le> K" and n: "K + m < 2 ^ 50"
  shows "\<exists>p. profileOf addr (foldl (\<lambda>s' tx. updateWalletProfile P addr tx s') s
                            (replicate K t0 @ replicate m t1)) = Some p
            \<and> averageRiskScore p = 4 \<and> totalTransactions p = K + m"
proof -
  obtain K' where K': "K = Suc K'" using K by (cases K) auto
  let ?e = "\<lparr>w_id = nextId s, address = addr, totalTransactions = 1,
                  totalValue = amount t0, averageRiskScore = riskScore t0,
                  firstSeen = timestamp t0, lastSeen = timestamp t0, tags = [],
                  riskLevel = tier (riskScore t0),
                  timePattern = [(getHours P (timestamp t0), 1)],
                  amountPattern = Some (getAmountRange (parseFloat P (amount t0)))\<rparr>"
  let ?f = "\<lambda>s' tx. updateWalletProfile P addr tx s'"
  have c: "profileOf addr (updateWalletProfile P addr t0 s) = Some ?e"
    using fresh by (rule profileOf_create)
  have s0': "riskScore t0 = 4 + 0" using s0 by simp
  have b1: "totalTransactions ?e + K' < 2 ^ 50" using n K' by simp
  obtain p1 where p1: "profileOf addr (foldl ?f (updateWalletProfile P addr t0 s) (replicate K' t0)) = Some p1"
      "averageRiskScore p1 = 4" "totalTransactions p1 = totalTransactions ?e + K'"
    using fold_replicate_stays_4[OF P s0' _ c _ b1] s0 by auto
  have k1: "totalTransactions p1 = K" using p1(3) K' by simp
  have b2: "totalTransactions p1 + m < 2 ^ 50" using n k1 by simp
  have cond: "\<delta> = 0 \<or> (\<delta> < 1 / 2 ^ 29 \<and> 2 ^ 22 \<le> totalTransactions p1 + 1)"
    using d(2) K k1 by simp
  obtain p where p: "profileOf addr (foldl ?f (foldl ?f (updateWalletProfile P addr t0 s) (replicate K' t0))
                                      (replicate m t1)) = Some p"
      "averageRiskScore p = 4" "totalTransactions p = totalTransactions p1 + m"
    using fold_replicate_stays_4[OF P s1 d(1) p1(1) p1(2) b2 cond] by blast
  have "foldl ?f s (replicate K t0 @ replicate m t1)
          = foldl ?f (foldl ?f (updateWalletProfile P addr t0 s) (replicate K' t0)) (replicate m t1)"
    by (simp add: K')
  then show ?thesis using p k1 by simp
qed

lemma drift_txs_mean:
  "length drift_txs = 16777216
   \<and> sum_list (map riskScore drift_txs) / real (length drift_txs) = 4 + 9 / 2 ^ 33"
proof -
  have l: "length drift_txs = 16777216" by (simp add: drift_txs_def)
  have "sum_list (map riskScore drift_txs)
          = real 4194304 * riskScore tx_D0 + real 12582912 * riskScore tx_D1"
    unfolding drift_txs_def by (simp only: map_append map_replicate sum_list_append sum_list_replicate)
  also have "\<dots> = 16777216 * (4 + 9 / 2 ^ 33)" by (simp add: tx_D0_def tx_D1_def)
  finally show ?thesis unfolding l by simp
qed

section \<open>Claims about the wallet aggregator and the risk\_scoring handler\<close>

text \<open>
  C3, as amended. Folding \<open>n \<ge> 1\<close> scored transactions into the profile of a fresh address
  with \<open>updateWalletProfile\<close> (the first creates the profile with its score, each later one
  applies \<open>(oldAverage * oldCount + newScore) / (oldCount + 1)\<close>) leaves
  \<open>totalTransactions = n\<close>, and \<open>averageRiskScore\<close> near the arithmetic mean of the folded scores
  in this sense: the incremental formula is the mean, so in exact arithmetic the two are equal
  for every \<open>n\<close>; in the program's doubles (each fold rounds three times, each rounding with
  relative error at most \<open>2\<^sup>-\<^sup>5\<^sup>3\<close>) they are within \<open>1e-9\<close> of each other for scores in
  \<open>[0, 10]\<close> and \<open>n \<le> 100000\<close>. The bound \<open>1e-9\<close> does not hold for every \<open>n\<close> in doubles, as
  Scenario D shows below.
\<close>

theorem wallet_mean_invariant:
  assumes "txs \<noteq> []" "profileOf addr s = None"
  shows "(rounding P = (\<lambda>x. x) \<longrightarrow>
            (case profileOf addr (foldl (\<lambda>s' tx. updateWalletProfile P addr tx s') s txs) of
               None \<Rightarrow> False
             | Some p \<Rightarrow>
                 totalTransactions p = length txs
                 \<and> averageRiskScore p = sum_list (map riskScore txs) / real (length txs)))
       \<and> (rounding P = round_double \<and> length txs \<le> 100000
            \<and> (\<forall>tx\<in>set txs. 0 \<le> riskScore tx \<and> riskScore tx \<le> 10) \<longrightarrow>
            (case profileOf addr (foldl (\<lambda>s' tx. updateWalletProfile P addr tx s') s txs) of
               None \<Rightarrow> False
             | Some p \<Rightarrow>
                 totalTransactions p = length txs
                 \<and> \<bar>averageRiskScore p - sum_list (map riskScore txs) / real (length txs)\<bar>
                     \<le> 1 / 10 ^ 9))"
proof -
  have exact: "case profileOf addr (foldl (\<lambda>s' tx. updateWalletProfile P addr tx s') s txs) of
               None \<Rightarrow> False
             | Some p \<Rightarrow>
                 totalTransactions p = length txs
                 \<and> averageRiskScore p = sum_list (map riskScore txs) / real (length txs)"
    if r: "rounding P = (\<lambda>x. x)"
  proof -
    obtain p where "profileOf addr (foldl (\<lambda>s' tx. updateWalletProfile P addr tx s') s txs) = Some p"
      "totalTransactions p = length txs"
      "averageRiskScore p = sum_list (map riskScore txs) / real (length txs)"
      using fold_fresh[OF r assms] by blast
    then show ?thesis by simp
  qed
  have dbl: "case profileOf addr (foldl (\<lambda>s' tx. updateWalletProfile P addr tx s') s txs) of
               None \<Rightarrow> False
             | Some p \<Rightarrow>
                 totalTransactions p = length txs
                 \<and> \<bar>averageRiskScore p - sum_list (map riskScore txs) / real (length txs)\<bar>
                     \<le> 1 / 10 ^ 9"
    if h: "rounding P = round_double \<and> length txs \<le> 100000
            \<and> (\<forall>tx\<in>set txs. 0 \<le> riskScore tx \<and> riskScore tx \<le> 10)"
  proof -
    have R: "rel_rounding (1 / 2 ^ 53) (rounding P)" using h round_double_rel by simp
    have sc: "\<forall>tx\<in>set txs. 0 \<le> riskScore tx \<and> riskScore tx \<le> 10" using h by simp
    obtain p where p: "profileOf addr (foldl (\<lambda>s' tx. updateWalletProfile P addr tx s') s txs) = Some p"
      "totalTransactions p = length txs"
      "\<bar>averageRiskScore p - sum_list (map riskScore txs) / real (length txs)\<bar>
         \<le> err_bound (1 / 2 ^ 53) 10 (3 * (length txs - 1))"
      using fold_fresh_err[OF R _ _ assms sc] by auto
    have "err_bound (1 / 2 ^ 53) 10 (3 * (length txs - 1)) \<le> 1 / 10 ^ 9"
      using h by (intro err_bound_double) simp
    then show ?thesis using p by simp
  qed
  show ?thesis using exact dbl by blast
qed

theorem wallet_mean_invariant_witness:
  "[tx_B1, tx_B2] \<noteq> [] \<and> profileOf ''0xf00'' state_0 = None
   \<and> rounding exact_platform = (\<lambda>x. x)
   \<and> (case profileOf ''0xf00''
             (foldl (\<lambda>s' tx. updateWalletProfile exact_platform ''0xf00'' tx s') state_0 [tx_B1, tx_B2]) of
         None \<Rightarrow> False
       | Some p \<Rightarrow> totalTransactions p = 2 \<and> averageRiskScore p = 6)
   \<and> rounding utc_platform = round_double \<and> length [tx_B1, tx_B2] \<le> 100000
   \<and> list_all (\<lambda>tx. 0 \<le> riskScore tx \<and> riskScore tx \<le> 10) [tx_B1, tx_B2]
   \<and> (case profileOf ''0xf00''
             (foldl (\<lambda>s' tx. updateWalletProfile utc_platform ''0xf00'' tx s') state_0 [tx_B1, tx_B2]) of
         None \<Rightarrow> False
       | Some p \<Rightarrow> totalTransactions p = 2 \<and> \<bar>averageRiskScore p - 6\<bar> \<le> 1 / 10 ^ 9)"
proof -
  have ne: "[tx_B1, tx_B2] \<noteq> []" by simp
  have sc: "list_all (\<lambda>tx. 0 \<le> riskScore tx \<and> riskScore tx \<le> 10) [tx_B1, tx_B2]"
    "sum_list (map riskScore [tx_B1, tx_B2]) / real (length [tx_B1, tx_B2]) = 6"
    by (simp_all add: tx_B1_def tx_B2_def tx_A_def)
  note a = wallet_mean_invariant[OF ne state_0_fresh, of exact_platform "''0xf00''"]
  note b = wallet_mean_invariant[OF ne state_0_fresh, of utc_platform "''0xf00''"]
  show ?thesis
    using a b exact_rounding utc_rounding state_0_fresh sc
    by (simp add: list_all_iff split: option.splits)
qed

text \<open>
  C3 as stated (within \<open>1e-9\<close> for every \<open>n \<ge> 1\<close>) fails in the program's doubles. On
  Scenario D the address first receives
  4194304 transactions with score 4; the stored average is 4 and every step is exact. Each of
  the next 12582912 transactions has score \<open>4 + 3 / 2\<^sup>3\<^sup>1\<close>: with \<open>k \<ge> 4194304\<close> folded, the sum
  \<open>4 * k + (4 + 3 / 2\<^sup>3\<^sup>1)\<close> lies above \<open>2\<^sup>2\<^sup>4\<close>, where doubles are \<open>2\<^sup>-\<^sup>2\<^sup>8\<close> apart, so it rounds
  to \<open>4 * (k + 1)\<close> and the new average is 4 again. After all 16777216 folds the stored
  \<open>averageRiskScore\<close> is exactly 4, while the mean of the folded scores is \<open>4 + 9 / 2\<^sup>3\<^sup>3\<close>, more
  than \<open>1e-9\<close> away. Both scores are values of \<open>calculateRiskScore\<close> (amount 150000 at
  03:00, jitter 0 and \<open>3 / 2\<^sup>3\<^sup>2\<close>).
\<close>

theorem wallet_mean_drifts:
  "rounding utc_platform = round_double \<and> drift_txs \<noteq> [] \<and> profileOf ''0xf00'' state_0 = None
   \<and> list_all (\<lambda>tx. riskScore tx = 4 \<or> riskScore tx = 4 + 3 / 2 ^ 31) drift_txs
   \<and> calculateRiskScore utc_platform 0 tx_A = 4
   \<and> calculateRiskScore utc_platform (3 / 2 ^ 32) tx_A = 4 + 3 / 2 ^ 31
   \<and> length drift_txs = 16777216
   \<and> sum_list (map riskScore drift_txs) / real (length drift_txs) = 4 + 9 / 2 ^ 33
   \<and> map_option totalTransactions
        (profileOf ''0xf00'' (foldl (\<lambda>s' tx. updateWalletProfile utc_platform ''0xf00'' tx s')
                                   state_0 drift_txs)) = Some 16777216
   \<and> map_option averageRiskScore
        (profileOf ''0xf00'' (foldl (\<lambda>s' tx. updateWalletProfile utc_platform ''0xf00'' tx s')
                                   state_0 drift_txs)) = Some 4
   \<and> 1 / 10 ^ 9 < \<bar>4 - sum_list (map riskScore drift_txs) / real (length drift_txs)\<bar>"
proof -
  have ne: "drift_txs \<noteq> []" by (simp add: drift_txs_def)
  have sc: "list_all (\<lambda>tx. riskScore tx = 4 \<or> riskScore tx = 4 + 3 / 2 ^ 31) drift_txs"
    by (simp add: drift_txs_def list_all_iff tx_D0_def tx_D1_def)
  have r4: "round_double 4 = 4" using round_double_of_int[of 4] by simp
  have r0: "calculateRiskScore utc_platform 0 tx_A = 4"
  proof -
    have z: "round_double 0 = 0" using round_double_of_int[of 0] by simp
    show ?thesis unfolding score_A_sum by (simp add: r4 z)
  qed
  have j: "round_double (3 / 2 ^ 32 * 2) = 3 / 2 ^ 31"
    using round_double_ratio[of 3 31] by simp
  have v: "(4::real) + 3 / 2 ^ 31 = real_of_int 8589934595 / 2 ^ 31" by simp
  have "round_double (real_of_int 8589934595 / 2 ^ 31) = real_of_int 8589934595 / 2 ^ 31"
    by (rule round_double_ratio) simp
  then have "round_double (4 + round_double (3 / 2 ^ 32 * 2)) = 4 + 3 / 2 ^ 31"
    by (simp only: j v)
  then have r1: "calculateRiskScore utc_platform (3 / 2 ^ 32) tx_A = 4 + 3 / 2 ^ 31"
    unfolding score_A_sum by simp
  have s0: "riskScore tx_D0 = 4" by (simp add: tx_D0_def)
  have s1: "riskScore tx_D1 = 4 + 3 / 2 ^ 31" by (simp add: tx_D1_def)
  obtain p where p: "profileOf ''0xf00'' (foldl (\<lambda>s' tx. updateWalletProfile utc_platform ''0xf00'' tx s')
                         state_0 (replicate 4194304 tx_D0 @ replicate 12582912 tx_D1)) = Some p"
      "averageRiskScore p = 4" "totalTransactions p = 4194304 + 12582912"
    using drift_general[OF utc_rounding state_0_fresh s0 s1, of 4194304 12582912 "''0xf00''"]
    by auto
  have big: "(1::real) / 10 ^ 9 < \<bar>4 - (4 + 9 / 2 ^ 33)\<bar>" by simp
  show ?thesis
    using utc_rounding ne state_0_fresh sc r0 r1 drift_txs_mean p big
    by (simp add: drift_txs_def)
qed

text \<open>
  C2 fails on the code. \<open>executeRiskScoring\<close> writes the new score to the store and then hands
  \<open>updateWalletProfile\<close> the document it queried, whose \<open>riskScore\<close> is still the old one. On
  Scenario A (one unscored transaction, amount 150000 at 03:00, jitter 0.5) the transaction gets
  \<open>riskScore = 4.5\<close> and \<open>analyzedAt\<close>, while the profile created for its sender has
  \<open>totalTransactions = 1\<close>, \<open>averageRiskScore = 0\<close> and \<open>riskLevel = low\<close>.
\<close>

theorem executeRiskScoring_folds_stale_score:
  "map riskScore (transactions (executeRiskScoring utc_platform agent_A state_A)) = [9 / 2]
   \<and> map analyzedAt (transactions (executeRiskScoring utc_platform agent_A state_A)) = [Some 11000000]
   \<and> map_option averageRiskScore (profileOf ''0xf00'' (executeRiskScoring utc_platform agent_A state_A)) = Some 0
   \<and> map_option totalTransactions (profileOf ''0xf00'' (executeRiskScoring utc_platform agent_A state_A)) = Some 1
   \<and> map_option riskLevel (profileOf ''0xf00'' (executeRiskScoring utc_platform agent_A state_A)) = Some low"
proof -
  have r: "random utc_platform (draws state_A) = 1 / 4" by (simp add: utc_platform_def)
  define s2 where "s2 = state_A\<lparr>draws := draws state_A + 1,
      transactions := map (\<lambda>t. if t_id t = t_id tx_A
                             then t\<lparr>riskScore := 9 / 2, analyzedAt := Some (clock state_A)\<rparr>
                             else t) (transactions state_A)\<rparr>"
  have run: "executeRiskScoring utc_platform agent_A state_A = updateWalletProfile utc_platform (fromAddress tx_A) tx_A s2"
    unfolding executeRiskScoring_def Let_def unanalyzed_A
    by (simp add: scoreTransaction_def Let_def r score_A s2_def cong: if_cong)
  have fresh: "profileOf (fromAddress tx_A) s2 = None"
    by (simp add: profileOf_def s2_def state_A_def state_0_def)
  have addr: "fromAddress tx_A = ''0xf00''" by (simp add: tx_A_def)
  have prof: "profileOf ''0xf00'' (executeRiskScoring utc_platform agent_A state_A) =
        Some \<lparr>w_id = nextId s2, address = ''0xf00'', totalTransactions = 1,
                  totalValue = amount tx_A, averageRiskScore = riskScore tx_A,
                  firstSeen = timestamp tx_A, lastSeen = timestamp tx_A, tags = [],
                  riskLevel = tier (riskScore tx_A),
                  timePattern = [(getHours utc_platform (timestamp tx_A), 1)],
                  amountPattern = Some (getAmountRange (parseFloat utc_platform (amount tx_A)))\<rparr>"
    unfolding run using profileOf_create[OF fresh, of utc_platform tx_A] by (simp add: addr)
  have txs: "transactions (executeRiskScoring utc_platform agent_A state_A) = transactions s2"
    unfolding run using fresh by (simp add: updateWalletProfile_def)
  have t2: "transactions s2 = [tx_A\<lparr>riskScore := 9 / 2, analyzedAt := Some 11000000\<rparr>]"
    by (simp add: s2_def state_A_def state_0_def)
  show ?thesis unfolding prof txs t2 by (simp add: tx_A_def tier_def)
qed

section \<open>Claims about the alert handlers\<close>

lemma findAlertByHash_None: "findAlertByHash h s = None \<longleftrightarrow> alertsFor h s = []"
  by (auto simp: findAlertByHash_def alertsFor_def find_None_iff filter_empty_conv)

lemma alertsFor_createAlert:
  "alertsFor h (createAlert a s) =
     alertsFor h s @ (if transactionHash a = Some h then [a\<lparr>al_id := nextId s\<rparr>] else [])"
  by (simp add: alertsFor_def createAlert_def)

lemma alertTransaction_count:
  "length (alertsFor h (alertTransaction P ag s tx)) \<le> max 1 (length (alertsFor h s))"
  by (cases "hash tx = h")
     (auto simp: alertTransaction_def Let_def alertsFor_createAlert findAlertByHash_None)

lemma analyzeTransaction_count:
  "length (alertsFor h (analyzeTransaction P s tx)) \<le> max 1 (length (alertsFor h s))"
  by (cases "hash tx = h")
     (auto simp: analyzeTransaction_def Let_def alertsFor_createAlert findAlertByHash_None)

lemma fold_count:
  assumes "\<And>s tx. length (alertsFor h (f s tx)) \<le> max 1 (length (alertsFor h s))"
  shows "length (alertsFor h (foldl f s txs)) \<le> max 1 (length (alertsFor h s))"
proof (induction txs arbitrary: s)
  case Nil
  then show ?case by simp
next
  case (Cons tx txs)
  have "length (alertsFor h (foldl f (f s tx) txs)) \<le> max 1 (length (alertsFor h (f s tx)))"
    by (rule Cons.IH)
  also have "\<dots> \<le> max 1 (max 1 (length (alertsFor h s)))"
    using assms[of s tx] by simp
  finally show ?case by simp
qed

lemma executeAlerting_count:
  "length (alertsFor h (executeAlerting P ag s)) \<le> max 1 (length (alertsFor h s))"
  unfolding executeAlerting_def Let_def by (rule fold_count) (rule alertTransaction_count)

lemma executeBehaviorAnalysis_count:
  "length (alertsFor h (executeBehaviorAnalysis P ag s)) \<le> max 1 (length (alertsFor h s))"
  unfolding executeBehaviorAnalysis_def Let_def by (rule fold_count) (rule analyzeTransaction_count)

lemma alertsFor_sleep: "alertsFor h (sleep d s) = alertsFor h s"
  by (simp add: alertsFor_def sleep_def)

lemma twice_count:
  assumes "\<And>s. length (alertsFor h (H s)) \<le> max 1 (length (alertsFor h s))"
  shows "length (alertsFor h (H (sleep d (H s)))) \<le> max 1 (length (alertsFor h s))"
proof -
  have "length (alertsFor h (H (sleep d (H s)))) \<le> max 1 (length (alertsFor h (sleep d (H s))))"
    by (rule assms)
  also have "\<dots> \<le> max 1 (max 1 (length (alertsFor h s)))"
    using assms[of s] by (simp add: alertsFor_sleep)
  finally show ?thesis by simp
qed

lemma alerting_single:
  assumes "transactions s = [tx]" "riskScore tx = 9" "analyzedAt tx \<noteq> None" "alerts s = []"
  shows "\<exists>a. alerts (executeAlerting P ag (sleep d (executeAlerting P ag s))) = [a]
            \<and> severity a = critical \<and> transactionHash a = Some (hash tx)
            \<and> al_type a = risk_threshold"
proof -
  have q: "take 10 (filter (\<lambda>t. riskScore t \<ge> (if severityThreshold (config ag) = Some ''high'' then 8 else 6)
              \<and> analyzedAt t \<noteq> None) [tx]) = [tx]"
    using assms(2,3) by simp
  define s1 where "s1 = executeAlerting P ag s"
  have s1: "s1 = alertTransaction P ag s tx"
    unfolding s1_def executeAlerting_def Let_def assms(1) q by simp
  have none: "findAlertByHash (hash tx) s = None" using assms(4) by (simp add: findAlertByHash_def)
  obtain a where a: "alerts s1 = [a]" "severity a = critical" "transactionHash a = Some (hash tx)"
      "al_type a = risk_threshold" "transactions s1 = [tx]"
    unfolding s1 using none assms by (simp add: alertTransaction_def Let_def createAlert_def)
  define s1' where "s1' = sleep d s1"
  have s1': "alerts s1' = [a]" "transactions s1' = [tx]" using a by (simp_all add: s1'_def sleep_def)
  have some: "findAlertByHash (hash tx) s1' = Some a"
    using s1' a by (simp add: findAlertByHash_def)
  have "executeAlerting P ag s1' = alertTransaction P ag s1' tx"
    unfolding executeAlerting_def Let_def s1'(2) q by simp
  also have "\<dots> = s1'" using some by (simp add: alertTransaction_def Let_def)
  finally show ?thesis using a s1' unfolding s1'_def s1_def by auto
qed

text \<open>
  C8. Two runs in sequence of the alerting handler, or of the behavior\_analysis handler, over
  an unchanged transaction set (any time apart) create at most one alert per transaction hash:
  for every hash, the alerts that carry it number at most one afterwards, or as many as
  before the runs where some existed. Two alerting runs over a single analysed transaction
  with \<open>riskScore = 9\<close> and no alert leave exactly one alert, of severity \<open>critical\<close>.
\<close>

theorem alert_dedup:
  "length (alertsFor h (executeAlerting P ag (sleep d (executeAlerting P ag s))))
     \<le> max 1 (length (alertsFor h s))
   \<and> length (alertsFor h (executeBehaviorAnalysis P ag (sleep d (executeBehaviorAnalysis P ag s))))
     \<le> max 1 (length (alertsFor h s))
   \<and> (transactions s = [tx] \<and> riskScore tx = 9 \<and> analyzedAt tx \<noteq> None \<and> alerts s = [] \<longrightarrow>
       (\<exists>a. alerts (executeAlerting P ag (sleep d (executeAlerting P ag s))) = [a]
            \<and> severity a = critical \<and> transactionHash a = Some (hash tx)
            \<and> al_type a = risk_threshold))"
proof -
  have a: "length (alertsFor h (executeAlerting P ag (sleep d (executeAlerting P ag s))))
             \<le> max 1 (length (alertsFor h s))"
    by (rule twice_count) (rule executeAlerting_count)
  have b: "length (alertsFor h (executeBehaviorAnalysis P ag (sleep d (executeBehaviorAnalysis P ag s))))
             \<le> max 1 (length (alertsFor h s))"
    by (rule twice_count) (rule executeBehaviorAnalysis_count)
  show ?thesis using a b alerting_single[of s tx P ag d] by blast
qed

theorem alert_dedup_witness:
  "transactions state_C = [tx_C] \<and> riskScore tx_C = 9 \<and> analyzedAt tx_C \<noteq> None
   \<and> alerts state_C = []
   \<and> map severity (alerts (executeAlerting utc_platform agent_C
                              (sleep 6000 (executeAlerting utc_platform agent_C state_C)))) = [critical]
   \<and> map transactionHash (alerts (executeAlerting utc_platform agent_C
                              (sleep 6000 (executeAlerting utc_platform agent_C state_C)))) = [Some ''0xa1'']
   \<and> length (alertsFor ''0xa1'' (executeBehaviorAnalysis utc_platform agent_C
                              (sleep 6000 (executeBehaviorAnalysis utc_platform agent_C state_C)))) \<le> 1"
proof -
  have h: "transactions state_C = [tx_C] \<and> riskScore tx_C = 9 \<and> analyzedAt tx_C \<noteq> None
           \<and> alerts state_C = []"
    by (simp add: state_C_def state_0_def tx_C_def)
  have t: "hash tx_C = ''0xa1''" by (simp add: tx_C_def tx_A_def)
  have e: "alertsFor ''0xa1'' state_C = []" by (simp add: alertsFor_def state_C_def state_0_def)
  show ?thesis
    using alert_dedup[of "''0xa1''" utc_platform agent_C 6000 state_C tx_C] h t e by auto
qed

section \<open>Claims about the reporting handler\<close>

lemma find_daily_None:
  "find (\<lambda>r. r_type r = daily_summary \<and> createdAt r \<ge> d) (reports s) = None
     \<longleftrightarrow> dailySummaries d s = []"
  by (auto simp: dailySummaries_def find_None_iff filter_empty_conv)

lemma dailySummaries_updateReport:
  assumes "\<And>r. r_type (f r) = r_type r \<and> createdAt (f r) = createdAt r"
  shows "length (dailySummaries d (updateReport i f s)) = length (dailySummaries d s)"
proof -
  have key: "(\<lambda>r. r_type r = daily_summary \<and> createdAt r \<ge> d) \<circ> (\<lambda>r. if r_id r = i then f r else r)
               = (\<lambda>r. r_type r = daily_summary \<and> createdAt r \<ge> d)"
    by (auto simp: fun_eq_iff assms)
  show ?thesis unfolding dailySummaries_def updateReport_def
    by (simp add: key)
qed

lemma dailySummaries_sleep: "dailySummaries d (sleep ms s) = dailySummaries d s"
  by (simp add: dailySummaries_def sleep_def)

lemma dailySummaries_progress:
  "length (dailySummaries d (foldl (reportProgressStep i) s ps)) = length (dailySummaries d s)"
  by (induction ps arbitrary: s)
     (simp_all add: reportProgressStep_def dailySummaries_updateReport dailySummaries_sleep)

lemma dailySummaries_generateReport:
  "length (dailySummaries d (generateReport P s rep)) = length (dailySummaries d s)"
proof -
  let ?s1 = "updateReport (r_id rep) (\<lambda>r. r\<lparr>r_status := generating, r_progress := 0\<rparr>) s"
  have "length (dailySummaries d (generateReport P s rep))
          = length (dailySummaries d (foldl (reportProgressStep (r_id rep)) ?s1 [20, 40, 60, 80, 100]))"
    unfolding generateReport_def Let_def by (rule dailySummaries_updateReport) simp
  also have "\<dots> = length (dailySummaries d ?s1)" by (rule dailySummaries_progress)
  also have "\<dots> = length (dailySummaries d s)" by (rule dailySummaries_updateReport) simp
  finally show ?thesis .
qed

lemma dailySummaries_generatePending:
  "length (dailySummaries d (generatePendingReports P s)) = length (dailySummaries d s)"
proof -
  have "length (dailySummaries d (foldl (generateReport P) s rs)) = length (dailySummaries d s)" for rs
    by (induction rs arbitrary: s) (simp_all add: dailySummaries_generateReport)
  then show ?thesis by (simp add: generatePendingReports_def)
qed

lemma clock_updateReport: "clock (updateReport i f s) = clock s"
  by (simp add: updateReport_def)

lemma clock_progress_mono: "clock s \<le> clock (foldl (reportProgressStep i) s ps)"
proof (induction ps arbitrary: s)
  case Nil
  then show ?case by simp
next
  case (Cons p ps)
  have "clock s \<le> clock (reportProgressStep i s p)"
    by (simp add: reportProgressStep_def clock_updateReport sleep_def)
  also have "\<dots> \<le> clock (foldl (reportProgressStep i) (reportProgressStep i s p) ps)"
    by (rule Cons.IH)
  finally show ?case by simp
qed

lemma executeReporting_cases:
  "executeReporting P ag s =
     (let s1 = generatePendingReports P s; today = localMidnight P (clock s1)
      in if dailySummaries today s1 = []
         then s1\<lparr>reports := reports s1 @
                   [\<lparr>r_id = nextId s1,
                     r_title = ''Daily Summary - '' @ takeWhile (\<lambda>c. c \<noteq> CHR ''T'') (toISOString P today),
                     r_type = daily_summary, r_status = generating, r_progress = 0,
                     filePath = None, format = pdf,
                     parameters = [(''date'', JStr (toISOString P today))],
                     generatedBy = ''system'', scheduledFor = None, completedAt = None,
                     createdAt = clock s1\<rparr>],
                 nextId := nextId s1 + 1\<rparr>
         else s1)"
  unfolding executeReporting_def Let_def find_daily_None by simp

lemma localMidnight_le: "localMidnight P t \<le> t"
  by (simp add: localMidnight_def)

lemma executeReporting_count:
  "length (dailySummaries (localMidnight P (clock (generatePendingReports P s))) (executeReporting P ag s))
     = max 1 (length (dailySummaries (localMidnight P (clock (generatePendingReports P s))) s))"
proof -
  let ?s1 = "generatePendingReports P s"
  let ?d = "localMidnight P (clock ?s1)"
  have n: "length (dailySummaries ?d ?s1) = length (dailySummaries ?d s)"
    by (rule dailySummaries_generatePending)
  show ?thesis
  proof (cases "dailySummaries ?d ?s1 = []")
    case True
    then have "length (dailySummaries ?d (executeReporting P ag s)) = 1"
      unfolding executeReporting_cases Let_def
      by (simp add: dailySummaries_def localMidnight_le)
    then show ?thesis using True n by simp
  next
    case False
    then have "executeReporting P ag s = ?s1" unfolding executeReporting_cases Let_def by simp
    moreover have "1 \<le> length (dailySummaries ?d ?s1)" using False by (cases "dailySummaries ?d ?s1") simp_all
    ultimately show ?thesis using n by simp
  qed
qed

lemma pending_0: "generatePendingReports utc_platform state_0 = state_0"
  by (simp add: generatePendingReports_def pendingReports_def state_0_def)

lemma utc_tz: "tzOffset utc_platform = 0"
  by (simp add: utc_platform_def)

lemma midnight_0: "localMidnight utc_platform (clock state_0) = 0"
  by (simp add: localMidnight_def utc_tz state_0_def)

lemma first_run_0:
  "reports (executeReporting utc_platform agent_R state_0) =
     [\<lparr>r_id = 2, r_title = ''Daily Summary - <date>'', r_type = daily_summary,
       r_status = generating, r_progress = 0, filePath = None, format = pdf,
       parameters = [(''date'', JStr ''<date>T<time>'')], generatedBy = ''system'',
       scheduledFor = None, completedAt = None, createdAt = 11000000\<rparr>]"
  unfolding executeReporting_def Let_def pending_0 midnight_0
  by (simp add: state_0_def utc_platform_def)

lemma clock_first_run_0: "clock (executeReporting utc_platform agent_R state_0) = 11000000"
  unfolding executeReporting_def Let_def pending_0 midnight_0
  by (simp add: state_0_def)

lemma pending_1:
  "generatePendingReports utc_platform (sleep 30000 (executeReporting utc_platform agent_R state_0))
     = sleep 30000 (executeReporting utc_platform agent_R state_0)"
  by (simp add: generatePendingReports_def pendingReports_def sleep_def first_run_0)

lemma same_day_0:
  "localMidnight utc_platform
       (clock (generatePendingReports utc_platform
                 (sleep 30000 (executeReporting utc_platform agent_R state_0))))
     = localMidnight utc_platform (clock (generatePendingReports utc_platform state_0))"
  unfolding pending_1 pending_0 midnight_0
  by (simp add: sleep_def clock_first_run_0 localMidnight_def utc_tz)

lemma second_run_R: "executeReporting utc_platform agent_R state_R = state_R"
proof -
  have p: "generatePendingReports utc_platform state_R = state_R"
    unfolding state_R_def by (rule pending_1)
  have c: "clock state_R = 11030000" by (simp add: state_R_def sleep_def clock_first_run_0)
  have r: "reports state_R = reports (executeReporting utc_platform agent_R state_0)"
    by (simp add: state_R_def sleep_def)
  show ?thesis
    unfolding executeReporting_def Let_def p
    by (simp add: c r first_run_0 localMidnight_def utc_tz)
qed

lemma same_day_R:
  "localMidnight utc_platform
       (clock (generatePendingReports utc_platform
                 (sleep 30000 (executeReporting utc_platform agent_R state_R))))
     = localMidnight utc_platform (clock (generatePendingReports utc_platform state_R))"
proof -
  have p: "generatePendingReports utc_platform state_R = state_R"
    unfolding state_R_def by (rule pending_1)
  have c: "clock state_R = 11030000" by (simp add: state_R_def sleep_def clock_first_run_0)
  have r: "reports (sleep 30000 state_R) = reports (executeReporting utc_platform agent_R state_0)"
    by (simp add: state_R_def sleep_def)
  have p2: "generatePendingReports utc_platform (sleep 30000 state_R) = sleep 30000 state_R"
    by (simp add: generatePendingReports_def pendingReports_def r first_run_0)
  show ?thesis
    unfolding second_run_R p p2 by (simp add: sleep_def c localMidnight_def utc_tz)
qed

text \<open>
  C5, as amended. After generating the pending reports, the reporting handler creates a
  \<open>daily_summary\<close> report, in the \<open>generating\<close> status, exactly when no \<open>daily_summary\<close> report
  created since local midnight exists; otherwise it creates nothing. A second run later on the
  same local day creates none: the day's \<open>daily_summary\<close> reports then number one, or as many
  as existed before the first run.
\<close>

theorem daily_summary_once_generating:
  assumes "localMidnight P (clock (generatePendingReports P (sleep d (executeReporting P ag s))))
             = localMidnight P (clock (generatePendingReports P s))"
  shows "(dailySummaries (localMidnight P (clock (generatePendingReports P s)))
                         (generatePendingReports P s) = [] \<longrightarrow>
            (\<exists>r. reports (executeReporting P ag s) = reports (generatePendingReports P s) @ [r]
                 \<and> r_type r = daily_summary \<and> r_status r = generating
                 \<and> createdAt r = clock (generatePendingReports P s)))
       \<and> (dailySummaries (localMidnight P (clock (generatePendingReports P s)))
                          (generatePendingReports P s) \<noteq> [] \<longrightarrow>
            executeReporting P ag s = generatePendingReports P s)
       \<and> length (dailySummaries (localMidnight P (clock (generatePendingReports P s)))
                    (executeReporting P ag (sleep d (executeReporting P ag s))))
           = max 1 (length (dailySummaries (localMidnight P (clock (generatePendingReports P s))) s))"
proof -
  let ?s1 = "generatePendingReports P s"
  let ?today = "localMidnight P (clock ?s1)"
  let ?s' = "sleep d (executeReporting P ag s)"
  have a: "dailySummaries ?today ?s1 = [] \<longrightarrow>
            (\<exists>r. reports (executeReporting P ag s) = reports ?s1 @ [r]
                 \<and> r_type r = daily_summary \<and> r_status r = generating
                 \<and> createdAt r = clock ?s1)"
    unfolding executeReporting_cases Let_def by simp
  have b: "dailySummaries ?today ?s1 \<noteq> [] \<longrightarrow> executeReporting P ag s = ?s1"
    unfolding executeReporting_cases Let_def by simp
  have "length (dailySummaries ?today (executeReporting P ag ?s'))
          = max 1 (length (dailySummaries ?today ?s'))"
    using executeReporting_count[of P ?s' ag] unfolding assms .
  also have "length (dailySummaries ?today ?s') = max 1 (length (dailySummaries ?today s))"
    by (simp add: dailySummaries_sleep executeReporting_count)
  finally have c: "length (dailySummaries ?today (executeReporting P ag ?s'))
                     = max 1 (length (dailySummaries ?today s))" by simp
  show ?thesis using a b c by blast
qed

theorem daily_summary_once_generating_witness:
  "localMidnight utc_platform
       (clock (generatePendingReports utc_platform
                 (sleep 30000 (executeReporting utc_platform agent_R state_0))))
     = localMidnight utc_platform (clock (generatePendingReports utc_platform state_0))
   \<and> dailySummaries 0 state_0 = []
   \<and> map r_status (reports (executeReporting utc_platform agent_R state_0)) = [generating]
   \<and> map r_type (reports (executeReporting utc_platform agent_R state_0)) = [daily_summary]
   \<and> length (dailySummaries 0
               (executeReporting utc_platform agent_R
                  (sleep 30000 (executeReporting utc_platform agent_R state_0)))) = 1
   \<and> localMidnight utc_platform
       (clock (generatePendingReports utc_platform
                 (sleep 30000 (executeReporting utc_platform agent_R state_R))))
     = localMidnight utc_platform (clock (generatePendingReports utc_platform state_R))
   \<and> dailySummaries 0 state_R \<noteq> []
   \<and> executeReporting utc_platform agent_R state_R = state_R"
proof -
  have e: "dailySummaries 0 state_0 = []" by (simp add: dailySummaries_def state_0_def)
  have n: "reports state_0 = []" by (simp add: state_0_def)
  have p: "generatePendingReports utc_platform state_R = state_R"
    unfolding state_R_def by (rule pending_1)
  have m: "localMidnight utc_platform (clock state_R) = 0"
    by (simp add: state_R_def sleep_def clock_first_run_0 localMidnight_def utc_tz)
  have ne: "dailySummaries 0 state_R \<noteq> []"
    by (simp add: dailySummaries_def state_R_def sleep_def first_run_0)
  show ?thesis
    using daily_summary_once_generating[OF same_day_0] daily_summary_once_generating[OF same_day_R]
      same_day_0 same_day_R e n ne
    unfolding pending_0 midnight_0 p m by auto
qed

text \<open>
  C5 as stated fails: run on a store with no report, the handler creates the day's
  \<open>daily_summary\<close> report with status \<open>generating\<close>, not \<open>scheduled\<close>.
\<close>

theorem daily_summary_not_scheduled:
  "dailySummaries (localMidnight utc_platform (clock state_0)) state_0 = []
   \<and> map r_type (reports (executeReporting utc_platform agent_R state_0)) = [daily_summary]
   \<and> map r_status (reports (executeReporting utc_platform agent_R state_0)) = [generating]
   \<and> filter (\<lambda>r. r_status r = scheduled) (reports (executeReporting utc_platform agent_R state_0)) = []"
  by (simp add: first_run_0 dailySummaries_def) (simp add: state_0_def)

section \<open>Claims about the scheduler\<close>

lemma unchanged_refl: "unchanged s s" by (simp add: unchanged_def)

lemma unchanged_trans: "unchanged s s1 \<Longrightarrow> unchanged s1 s2 \<Longrightarrow> unchanged s s2"
  by (simp add: unchanged_def)

lemma unchanged_obind:
  assumes "unchanged s (state_of m)" "\<And>s1. m = Done s1 \<Longrightarrow> unchanged s1 (state_of (f s1))"
  shows "unchanged s (state_of (obind m f))"
proof (cases m)
  case (Done s1)
  then show ?thesis using assms unchanged_trans[of s s1] by (simp add: obind_def state_of_def)
next
  case (Threw s1)
  then show ?thesis using assms by (simp add: obind_def state_of_def)
qed

lemma unchanged_findByIdAndUpdate: "unchanged s (state_of (findByIdAndUpdate P i f s))"
  by (simp add: findByIdAndUpdate_def Let_def state_of_def unchanged_def)

lemma unchanged_broadcast: "unchanged s (broadcastAgentUpdate e s)"
  by (simp add: broadcastAgentUpdate_def unchanged_def)

lemma unchanged_sleep: "unchanged s (sleep d s)"
  by (simp add: sleep_def unchanged_def)

lemma progressLoop_unchanged:
  "50 \<notin> set ps \<Longrightarrow> unchanged s (state_of (progressLoop P ag now d ps s))"
proof (induction ps arbitrary: s)
  case Nil
  then show ?case by (simp add: state_of_def unchanged_refl)
next
  case (Cons p ps)
  have p: "p \<noteq> 50" and ps: "50 \<notin> set ps" using Cons.prems by auto
  show ?case
    unfolding progressLoop.simps
  proof (rule unchanged_obind)
    show "unchanged s (state_of (findByIdAndUpdate P (a_id ag) (\<lambda>a. a\<lparr>a_progress := p\<rparr>) (sleep d s)))"
      using unchanged_trans[OF unchanged_sleep unchanged_findByIdAndUpdate] .
  next
    fix s1
    show "unchanged s1 (state_of (obind
            (let s2 = broadcastAgentUpdate (AgentUpdate (a_id ag) processing p (Some now)) s1
             in if p = 50 then executeAgentLogic P ag s2 else Done s2)
            (\<lambda>s3. progressLoop P ag now d ps s3)))"
    proof (rule unchanged_obind)
      show "unchanged s1 (state_of
              (let s2 = broadcastAgentUpdate (AgentUpdate (a_id ag) processing p (Some now)) s1
               in if p = 50 then executeAgentLogic P ag s2 else Done s2))"
        using p by (simp add: Let_def state_of_def unchanged_broadcast)
    next
      fix s3
      show "unchanged s3 (state_of (progressLoop P ag now d ps s3))" by (rule Cons.IH[OF ps])
    qed
  qed
qed

lemma executeAgent_unchanged: "unchanged s (state_of (executeAgent P ag s))"
proof -
  have l: "50 \<notin> set progressUpdates" by (simp add: progressUpdates_def)
  show ?thesis
    unfolding executeAgent_def Let_def
    apply (rule unchanged_obind[OF unchanged_findByIdAndUpdate])
    apply (rule unchanged_obind)
     apply (rule unchanged_trans[OF unchanged_broadcast progressLoop_unchanged[OF l]])
    apply (rule unchanged_obind[OF unchanged_findByIdAndUpdate])
    apply (simp add: state_of_def unchanged_broadcast)
    done
qed

lemma obind_Done: "obind m f = Done s' \<Longrightarrow> \<exists>s1. m = Done s1 \<and> f s1 = Done s'"
  by (cases m) (simp_all add: obind_def)

lemma findByIdAndUpdate_Done:
  "findByIdAndUpdate P i f s = Done s' \<Longrightarrow>
     agents s' = map (\<lambda>a. if a_id a = i then f a else a) (agents s) \<and> \<not> fails P (ops s)"
  by (auto simp: findByIdAndUpdate_def Let_def split: if_splits)

lemma executeAgent_Done_active:
  assumes "executeAgent P ag s = Done s'"
  shows "\<forall>a\<in>set (agents s'). a_id a = a_id ag \<longrightarrow> a_status a = active \<and> a_progress a = 0"
proof -
  obtain s1 where "obind
              (progressLoop P ag (clock s) ((interval_or_default ag * 1000) div 8) progressUpdates
                 (broadcastAgentUpdate (AgentUpdate (a_id ag) processing 0 (Some (clock s))) s1))
              (\<lambda>s2. obind
                 (findByIdAndUpdate P (a_id ag) (\<lambda>a. a\<lparr>a_status := active, a_progress := 0\<rparr>) s2)
                 (\<lambda>s3. Done (broadcastAgentUpdate (AgentUpdate (a_id ag) active 0 (Some (clock s))) s3))) = Done s'"
    using assms unfolding executeAgent_def Let_def by (blast dest: obind_Done)
  then obtain s2 where "obind
                 (findByIdAndUpdate P (a_id ag) (\<lambda>a. a\<lparr>a_status := active, a_progress := 0\<rparr>) s2)
                 (\<lambda>s3. Done (broadcastAgentUpdate (AgentUpdate (a_id ag) active 0 (Some (clock s))) s3)) = Done s'"
    by (blast dest: obind_Done)
  then obtain s3 where s3: "findByIdAndUpdate P (a_id ag) (\<lambda>a. a\<lparr>a_status := active, a_progress := 0\<rparr>) s2 = Done s3"
    "Done (broadcastAgentUpdate (AgentUpdate (a_id ag) active 0 (Some (clock s))) s3) = Done s'"
    by (blast dest: obind_Done)
  have "agents s' = agents s3" using s3(2) by (auto simp: broadcastAgentUpdate_def)
  also have "\<dots> = map (\<lambda>a. if a_id a = a_id ag then a\<lparr>a_status := active, a_progress := 0\<rparr> else a) (agents s2)"
    using findByIdAndUpdate_Done[OF s3(1)] by simp
  finally show ?thesis by auto
qed

lemmas run_simps = executeAgent_def obind_def findByIdAndUpdate_def progressUpdates_def Let_def
  sleep_def broadcastAgentUpdate_def interval_or_default_def state_of_def threw_def
  timerCallback_def armTimer_def

lemma utc_fails: "fails utc_platform n = False" by (simp add: utc_platform_def)
lemma faulty_fails: "fails faulty_platform n = (n = 2)" by (simp add: faulty_platform_def utc_platform_def)
lemma dead_fails: "fails dead_store_platform n = True" by (simp add: dead_store_platform_def utc_platform_def)

lemma agent_A_fields: "a_id agent_A = 0" "intervalSeconds agent_A = 5"
  by (simp_all add: agent_A_def)

lemma state_A_fields: "agents state_A = [agent_A]" "ops state_A = 0" "clock state_A = 11000000"
  "broadcasts state_A = []" "timers state_A = []" "running state_A" "nextHandle state_A = 0"
  "intervals state_A = Map.empty"
  by (simp_all add: state_A_def state_0_def)

lemma run_ok: "map a_status (agents (state_of (executeAgent utc_platform agent_A state_A))) = [active]
   \<and> \<not> threw (executeAgent utc_platform agent_A state_A)
   \<and> clock (state_of (executeAgent utc_platform agent_A state_A)) = 11005000
   \<and> length (broadcasts (state_of (executeAgent utc_platform agent_A state_A))) = 10"
  by (simp add: run_simps utc_fails agent_A_fields state_A_fields)

lemma run_faulty: "threw (executeAgent faulty_platform agent_A state_A)
   \<and> ops (state_of (executeAgent faulty_platform agent_A state_A)) = 3
   \<and> map a_progress (agents (state_of (executeAgent faulty_platform agent_A state_A))) = [10]
   \<and> map a_status (agents (state_of (executeAgent faulty_platform agent_A state_A))) = [processing]"
  by (simp add: run_simps faulty_fails agent_A_fields state_A_fields)

lemma cb_faulty:
  "map a_status (agents (timerCallback faulty_platform agent_A state_A)) = [error]
   \<and> map a_progress (agents (timerCallback faulty_platform agent_A state_A)) = [0]
   \<and> timers (timerCallback faulty_platform agent_A state_A) = [(0, 10000, agent_A)]
   \<and> last (broadcasts (timerCallback faulty_platform agent_A state_A)) = AgentUpdate 0 error 0 (Some 11001250)"
  by (simp add: run_simps faulty_fails agent_A_fields state_A_fields)

lemma cb_dead:
  "threw (executeAgent dead_store_platform agent_A state_A)
   \<and> map a_status (agents (timerCallback dead_store_platform agent_A state_A)) = [active]
   \<and> broadcasts (timerCallback dead_store_platform agent_A state_A) = []
   \<and> timers (timerCallback dead_store_platform agent_A state_A) = []"
  by (simp add: run_simps dead_fails agent_A_fields state_A_fields) (simp add: agent_A_def)

lemma find_map_id:
  assumes "find (\<lambda>a. a_id a = i) xs = Some a" "\<And>x. a_id (f x) = a_id x"
  shows "find (\<lambda>a. a_id a = i) (map (\<lambda>x. if a_id x = i then f x else x) xs) = Some (f a)"
  using assms(1)
proof (induction xs)
  case Nil
  then show ?case by simp
next
  case (Cons x xs)
  then show ?case by (cases "a_id x = i") (simp_all add: assms(2))
qed

lemma a_id_applyUpdates: "a_id (applyUpdates u a) = a_id a"
  by (simp add: applyUpdates_def)

lemma nextRun_applyUpdates: "nextRun (applyUpdates u a) = nextRun a"
  by (simp add: applyUpdates_def)

lemma find_id: "find (\<lambda>a. a_id a = i) xs = Some a \<Longrightarrow> a_id a = i"
  by (induction xs) (auto split: if_splits)

lemma state_P_fields: "agents state_P = [agent_P]" "ops state_P = 0" "clock state_P = 11000000"
  "timers state_P = []" "nextHandle state_P = 0" "intervals state_P = Map.empty"
  by (simp_all add: state_P_def state_0_def)

lemma agent_P_fields: "a_id agent_P = 0" "nextRun agent_P = Some 11003000" "a_status agent_P = inactive"
  by (simp_all add: agent_P_def agent_A_def)

lemma state_0_fields: "agents state_0 = [agent_A]" "ops state_0 = 0" "clock state_0 = 11000000"
  "timers state_0 = []" "nextHandle state_0 = 0" "intervals state_0 = Map.empty"
  by (simp_all add: state_0_def)

lemmas upd_simps = updateAgentStatus_def obind_def findByIdAndUpdate_def Let_def
  broadcastAgentUpdate_def state_of_def threw_def scheduleAgent_def armTimer_def clearTimeout_def
  applyUpdates_def

lemma state_T_fields:
  "ops state_T = 1" "timers state_T = [(0, 3000, applyUpdates u_active agent_P)]"
  "intervals state_T 0 = Some 0"
  "find (\<lambda>a. a_id a = 0) (agents state_T) = Some (applyUpdates u_active agent_P)"
  unfolding state_T_def
  by (simp_all add: upd_simps utc_fails state_P_fields agent_P_fields u_active_def)

lemma state_Af_fields: "agents (state_A\<lparr>running := False\<rparr>) = [agent_A]"
  "ops (state_A\<lparr>running := False\<rparr>) = 0" "clock (state_A\<lparr>running := False\<rparr>) = 11000000"
  "timers (state_A\<lparr>running := False\<rparr>) = []" "\<not> running (state_A\<lparr>running := False\<rparr>)"
  by (simp_all add: state_A_fields)

lemma run_faulty_stopped:
  "threw (executeAgent faulty_platform agent_A (state_A\<lparr>running := False\<rparr>))
   \<and> ops (state_of (executeAgent faulty_platform agent_A (state_A\<lparr>running := False\<rparr>))) = 3"
  by (simp add: run_simps faulty_fails agent_A_fields state_A_fields)

lemma handler_would_score:
  "map riskScore (transactions (state_of (executeAgentLogic utc_platform agent_A state_A))) = [9 / 2]"
proof -
  have t: "a_type agent_A = risk_scoring" by (simp add: agent_A_def)
  let ?s1 = "state_A\<lparr>dispatched := dispatched state_A @ [a_type agent_A],
                      ops := ops (state_A\<lparr>dispatched := dispatched state_A @ [a_type agent_A]\<rparr>) + 1\<rparr>"
  have e: "executeAgentLogic utc_platform agent_A state_A = Done (executeRiskScoring utc_platform agent_A ?s1)"
    by (simp add: executeAgentLogic_def Let_def t utc_fails)
  have u: "take 50 (filter (\<lambda>t. analyzedAt t = None \<and> riskScore t \<le> 0) (transactions ?s1)) = [tx_A]"
    using unanalyzed_A by simp
  have r: "random utc_platform n = 1 / 4" for n by (simp add: utc_platform_def)
  have tr: "transactions (updateWalletProfile P a t s) = transactions s" for P a t s
    by (simp add: updateWalletProfile_def Let_def split: option.splits)
  have "transactions (executeRiskScoring utc_platform agent_A ?s1)
          = map (\<lambda>t. if t_id t = t_id tx_A
                      then t\<lparr>riskScore := 9 / 2, analyzedAt := Some (clock ?s1)\<rparr> else t)
                (transactions ?s1)"
    unfolding executeRiskScoring_def Let_def u
    by (simp add: scoreTransaction_def Let_def tr r score_A cong: if_cong)
  then show ?thesis unfolding e by (simp add: state_of_def state_A_fields state_A_def state_0_def)
qed

lemma cycle_leaves_unscored:
  "\<not> threw (executeAgent utc_platform agent_A state_A)
   \<and> map riskScore (transactions (state_of (executeAgent utc_platform agent_A state_A))) = [0]
   \<and> map analyzedAt (transactions (state_of (executeAgent utc_platform agent_A state_A))) = [None]"
proof -
  have "transactions (state_of (executeAgent utc_platform agent_A state_A)) = transactions state_A"
    using executeAgent_unchanged[of state_A utc_platform agent_A] by (simp add: unchanged_def)
  then show ?thesis using run_ok by (simp add: state_A_def state_0_def tx_A_def)
qed

text \<open>
  C1 fails on the code. \<open>executeAgent\<close> dispatches where \<open>progress === 50\<close>, and 50 is not a
  rung of the ladder \<open>[10, 25, 40, 55, 70, 85, 95, 100]\<close> (the fourth rung is 55). So no cycle,
  completed or thrown, enters \<open>executeAgentLogic\<close>: the history of dispatches and the
  transactions, alerts, wallet profiles and reports are after the cycle what they were before.
  On Scenario A a full cycle completes and leaves the transaction unscored, where a call of
  \<open>executeAgentLogic\<close> would have scored it.
\<close>

theorem executeAgent_never_dispatches:
  "50 \<notin> set progressUpdates \<and> progressUpdates ! 3 = 55
   \<and> dispatched (state_of (executeAgent P ag s)) = dispatched s
   \<and> transactions (state_of (executeAgent P ag s)) = transactions s
   \<and> alerts (state_of (executeAgent P ag s)) = alerts s
   \<and> walletProfiles (state_of (executeAgent P ag s)) = walletProfiles s
   \<and> reports (state_of (executeAgent P ag s)) = reports s
   \<and> \<not> threw (executeAgent utc_platform agent_A state_A)
   \<and> map riskScore (transactions (state_of (executeAgent utc_platform agent_A state_A))) = [0]
   \<and> map analyzedAt (transactions (state_of (executeAgent utc_platform agent_A state_A))) = [None]
   \<and> map riskScore (transactions (state_of (executeAgentLogic utc_platform agent_A state_A))) = [9 / 2]"
proof -
  have l: "50 \<notin> set progressUpdates" "progressUpdates ! 3 = 55" by (simp_all add: progressUpdates_def)
  have "unchanged s (state_of (executeAgent P ag s))" by (rule executeAgent_unchanged)
  then show ?thesis using l cycle_leaves_unscored handler_would_score by (simp add: unchanged_def)
qed

text \<open>
  C6, as amended. \<open>updateAgentStatus(id, updates)\<close>, when its write succeeds and the agent
  exists, applies the partial update to the agent record. If \<open>updates.status\<close> is \<open>active\<close> and
  no timer is registered for the agent, it arms a timer for the updated agent with delay
  \<open>nextRun - now\<close> when \<open>nextRun\<close> lies in the future and 0 otherwise, and registers it. If
  \<open>updates.status\<close> is \<open>inactive\<close> and a timer is registered, it cancels that timer and removes
  the registration. In every other case timers and registrations stay as they are.
\<close>

theorem updateAgentStatus_timers:
  assumes ok: "\<not> fails P (ops s)" and ex: "find (\<lambda>a. a_id a = i) (agents s) = Some a"
  shows "\<not> threw (updateAgentStatus P i u s)
       \<and> find (\<lambda>a. a_id a = i) (agents (state_of (updateAgentStatus P i u s))) = Some (applyUpdates u a)
       \<and> (u_status u = Some active \<and> intervals s i = None \<longrightarrow>
            timers (state_of (updateAgentStatus P i u s))
              = timers s @ [(nextHandle s,
                             (case nextRun a of Some nr \<Rightarrow> if nr > clock s then nr - clock s else 0
                              | None \<Rightarrow> 0),
                             applyUpdates u a)]
            \<and> intervals (state_of (updateAgentStatus P i u s)) i = Some (nextHandle s))
       \<and> (\<forall>h. u_status u = Some inactive \<and> intervals s i = Some h \<longrightarrow>
            timers (state_of (updateAgentStatus P i u s)) = filter (\<lambda>(h', d, a). h' \<noteq> h) (timers s)
            \<and> intervals (state_of (updateAgentStatus P i u s)) i = None)
       \<and> (\<not> (u_status u = Some active \<and> intervals s i = None)
            \<and> \<not> (u_status u = Some inactive \<and> intervals s i \<noteq> None) \<longrightarrow>
            timers (state_of (updateAgentStatus P i u s)) = timers s
            \<and> intervals (state_of (updateAgentStatus P i u s)) = intervals s)"
proof -
  define s1 where "s1 = s\<lparr>ops := ops s + 1,
      agents := map (\<lambda>x. if a_id x = i then applyUpdates u x else x) (agents s)\<rparr>"
  have w: "findByIdAndUpdate P i (applyUpdates u) s = Done s1"
    using ok by (simp add: findByIdAndUpdate_def Let_def s1_def)
  have f: "find (\<lambda>a. a_id a = i) (agents s1) = Some (applyUpdates u a)"
    unfolding s1_def using find_map_id[OF ex, of "applyUpdates u"] by (simp add: a_id_applyUpdates)
  have id: "a_id (applyUpdates u a) = i" using find_id[OF ex] by (simp add: a_id_applyUpdates)
  define s2 where "s2 = broadcastAgentUpdate
     (AgentUpdate i (a_status (applyUpdates u a)) (a_progress (applyUpdates u a)) (lastRun (applyUpdates u a))) s1"
  have fields: "intervals s2 = intervals s" "timers s2 = timers s" "nextHandle s2 = nextHandle s"
    "clock s2 = clock s" "agents s2 = agents s1"
    by (simp_all add: s2_def s1_def broadcastAgentUpdate_def)
  have run: "updateAgentStatus P i u s =
      (if u_status u = Some active \<and> intervals s2 i = None
       then Done (scheduleAgent P (applyUpdates u a) s2)
       else if u_status u = Some inactive \<and> intervals s2 i \<noteq> None
       then Done ((case intervals s2 i of Some h \<Rightarrow> clearTimeout h s2 | None \<Rightarrow> s2)
                    \<lparr>intervals := (intervals s2)(i := None)\<rparr>)
       else Done s2)"
    unfolding updateAgentStatus_def w
    by (simp only: obind_def outcome.case f option.case Let_def s2_def)
  show ?thesis
    unfolding run
    by (auto simp: threw_def state_of_def fields f scheduleAgent_def armTimer_def clearTimeout_def
        id nextRun_applyUpdates Let_def split: option.splits)
qed

theorem updateAgentStatus_timers_witness:
  "\<not> fails utc_platform (ops state_P)
   \<and> find (\<lambda>a. a_id a = 0) (agents state_P) = Some agent_P
   \<and> u_status u_active = Some active \<and> intervals state_P 0 = None
   \<and> \<not> threw (updateAgentStatus utc_platform 0 u_active state_P)
   \<and> find (\<lambda>a. a_id a = 0) (agents (state_of (updateAgentStatus utc_platform 0 u_active state_P)))
       = Some (applyUpdates u_active agent_P)
   \<and> timers (state_of (updateAgentStatus utc_platform 0 u_active state_P))
       = [(0, 3000, applyUpdates u_active agent_P)]
   \<and> intervals (state_of (updateAgentStatus utc_platform 0 u_active state_P)) 0 = Some 0
   \<and> \<not> fails utc_platform (ops state_T)
   \<and> find (\<lambda>a. a_id a = 0) (agents state_T) = Some (applyUpdates u_active agent_P)
   \<and> u_status u_inactive = Some inactive \<and> intervals state_T 0 = Some 0
   \<and> timers (state_of (updateAgentStatus utc_platform 0 u_inactive state_T)) = []
   \<and> intervals (state_of (updateAgentStatus utc_platform 0 u_inactive state_T)) 0 = None
   \<and> find (\<lambda>a. a_id a = 0) (agents state_0) = Some agent_A
   \<and> u_status u_progress_only = None
   \<and> timers (state_of (updateAgentStatus utc_platform 0 u_progress_only state_0)) = timers state_0
   \<and> intervals (state_of (updateAgentStatus utc_platform 0 u_progress_only state_0)) = intervals state_0"
proof -
  have h1: "\<not> fails utc_platform (ops state_P)" by (simp add: utc_fails)
  have h2: "find (\<lambda>a. a_id a = 0) (agents state_P) = Some agent_P"
    by (simp add: state_P_fields agent_P_fields)
  have h3: "u_status u_active = Some active \<and> intervals state_P 0 = None"
    by (simp add: u_active_def state_P_fields)
  have k1: "\<not> fails utc_platform (ops state_T)" by (simp add: utc_fails)
  have k2: "find (\<lambda>a. a_id a = 0) (agents state_T) = Some (applyUpdates u_active agent_P)"
    by (rule state_T_fields)
  have k3: "u_status u_inactive = Some inactive \<and> intervals state_T 0 = Some 0"
    by (simp add: u_inactive_def state_T_fields)
  have m1: "\<not> fails utc_platform (ops state_0)" by (simp add: utc_fails)
  have m2: "find (\<lambda>a. a_id a = 0) (agents state_0) = Some agent_A"
    by (simp add: state_0_fields agent_A_fields)
  have m3: "u_status u_progress_only = None" by (simp add: u_progress_only_def)
  show ?thesis
    using updateAgentStatus_timers[OF h1 h2, of u_active]
      updateAgentStatus_timers[OF k1 k2, of u_inactive]
      updateAgentStatus_timers[OF m1 m2, of u_progress_only]
      h1 h2 h3 k1 k2 k3 m2 m3
    by (simp add: state_P_fields agent_P_fields state_T_fields)
qed

text \<open>
  C6 as stated fails twice. Resuming a paused agent whose \<open>nextRun\<close> is three seconds ahead
  arms the timer with delay 3000, not 0. And an update that carries no \<open>status\<close>, applied to an
  agent that is \<open>active\<close> and has no timer, leaves the agent \<open>active\<close> and arms none.
\<close>

theorem updateAgentStatus_delay_not_zero:
  "find (\<lambda>a. a_id a = 0) (agents state_P) = Some agent_P \<and> intervals state_P 0 = None
   \<and> map a_status (agents (state_of (updateAgentStatus utc_platform 0 u_active state_P))) = [active]
   \<and> map (\<lambda>(h, d, a). d) (timers (state_of (updateAgentStatus utc_platform 0 u_active state_P))) = [3000]
   \<and> find (\<lambda>a. a_id a = 0) (agents state_0) = Some agent_A \<and> intervals state_0 0 = None
   \<and> map a_status (agents (state_of (updateAgentStatus utc_platform 0 u_progress_only state_0))) = [active]
   \<and> timers (state_of (updateAgentStatus utc_platform 0 u_progress_only state_0)) = []
   \<and> intervals (state_of (updateAgentStatus utc_platform 0 u_progress_only state_0)) 0 = None"
  by (simp add: upd_simps utc_fails state_P_fields agent_P_fields state_0_fields agent_A_fields
      u_active_def u_progress_only_def)
     (simp add: agent_A_def)

text \<open>
  C7, as amended. If a cycle of an agent throws and the write of the \<open>catch\<close> block succeeds,
  the agent's status becomes \<open>error\<close> and its progress 0, and an error status event is emitted;
  if the manager is running, the timer is re-armed with a delay of exactly twice
  \<open>intervalSeconds\<close> (given in milliseconds; \<open>intervalSeconds\<close> not 0), and if it is not
  running no timer is armed. Every cycle of the agent that completes leaves it \<open>active\<close> with
  progress 0.
\<close>

theorem failure_marks_error_and_backs_off:
  assumes thr: "threw (executeAgent P ag s)"
    and ok: "\<not> fails P (ops (state_of (executeAgent P ag s)))"
    and iv: "intervalSeconds ag \<noteq> 0"
  shows "(\<forall>a\<in>set (agents (timerCallback P ag s)).
            a_id a = a_id ag \<longrightarrow> a_status a = error \<and> a_progress a = 0)
       \<and> broadcasts (timerCallback P ag s)
           = broadcasts (state_of (executeAgent P ag s))
             @ [AgentUpdate (a_id ag) error 0 (Some (clock (state_of (executeAgent P ag s))))]
       \<and> (running s \<longrightarrow>
            timers (timerCallback P ag s) = timers s @ [(nextHandle s, 2 * (intervalSeconds ag * 1000), ag)]
            \<and> intervals (timerCallback P ag s) (a_id ag) = Some (nextHandle s))
       \<and> (\<not> running s \<longrightarrow> timers (timerCallback P ag s) = timers s)
       \<and> (\<forall>P' s2 s3. executeAgent P' ag s2 = Done s3 \<longrightarrow>
            (\<forall>a\<in>set (agents s3). a_id a = a_id ag \<longrightarrow> a_status a = active \<and> a_progress a = 0))"
proof -
  obtain s1 where s1: "executeAgent P ag s = Threw s1"
    using thr by (cases "executeAgent P ag s") (simp_all add: threw_def)
  have st: "state_of (executeAgent P ag s) = s1" by (simp add: s1 state_of_def)
  have u: "unchanged s s1" using executeAgent_unchanged[of s P ag] by (simp add: st)
  have ok1: "\<not> fails P (ops s1)" using ok by (simp add: st)
  define s2 where "s2 = s1\<lparr>ops := ops s1 + 1,
      agents := map (\<lambda>a. if a_id a = a_id ag then a\<lparr>a_status := error, a_progress := 0\<rparr> else a) (agents s1)\<rparr>"
  have w: "findByIdAndUpdate P (a_id ag) (\<lambda>a. a\<lparr>a_status := error, a_progress := 0\<rparr>) s1 = Done s2"
    using ok1 by (simp add: findByIdAndUpdate_def Let_def s2_def)
  define s3 where "s3 = broadcastAgentUpdate (AgentUpdate (a_id ag) error 0 (Some (clock s2))) s2"
  have cb: "timerCallback P ag s = (if running s3 then armTimer ag (interval_or_default ag * 2000) s3 else s3)"
    unfolding timerCallback_def s1 by (simp add: w s3_def Let_def)
  have r3: "running s3 = running s" "timers s3 = timers s" "nextHandle s3 = nextHandle s"
    "clock s2 = clock s1" "broadcasts s3 = broadcasts s1 @ [AgentUpdate (a_id ag) error 0 (Some (clock s1))]"
    "agents s3 = map (\<lambda>a. if a_id a = a_id ag then a\<lparr>a_status := error, a_progress := 0\<rparr> else a) (agents s1)"
    using u by (simp_all add: s3_def s2_def broadcastAgentUpdate_def unchanged_def)
  have d: "interval_or_default ag * 2000 = 2 * (intervalSeconds ag * 1000)"
    using iv by (simp add: interval_or_default_def)
  have a: "\<forall>a\<in>set (agents (timerCallback P ag s)).
            a_id a = a_id ag \<longrightarrow> a_status a = error \<and> a_progress a = 0"
    unfolding cb by (auto simp: armTimer_def r3)
  have b: "broadcasts (timerCallback P ag s) = broadcasts s1 @ [AgentUpdate (a_id ag) error 0 (Some (clock s1))]"
    unfolding cb by (simp add: armTimer_def r3)
  have c: "running s \<longrightarrow>
            timers (timerCallback P ag s) = timers s @ [(nextHandle s, 2 * (intervalSeconds ag * 1000), ag)]
            \<and> intervals (timerCallback P ag s) (a_id ag) = Some (nextHandle s)"
    unfolding cb by (simp add: armTimer_def r3 d)
  have e: "\<not> running s \<longrightarrow> timers (timerCallback P ag s) = timers s"
    unfolding cb by (simp add: r3)
  show ?thesis using a b c e executeAgent_Done_active unfolding st by blast
qed

theorem failure_marks_error_and_backs_off_witness:
  "threw (executeAgent faulty_platform agent_A state_A)
   \<and> \<not> fails faulty_platform (ops (state_of (executeAgent faulty_platform agent_A state_A)))
   \<and> intervalSeconds agent_A \<noteq> 0 \<and> running state_A
   \<and> map a_status (agents (timerCallback faulty_platform agent_A state_A)) = [error]
   \<and> map a_progress (agents (timerCallback faulty_platform agent_A state_A)) = [0]
   \<and> last (broadcasts (timerCallback faulty_platform agent_A state_A))
       = AgentUpdate 0 error 0 (Some 11001250)
   \<and> timers (timerCallback faulty_platform agent_A state_A) = [(0, 2 * (5 * 1000), agent_A)]
   \<and> intervals (timerCallback faulty_platform agent_A state_A) 0 = Some 0
   \<and> \<not> threw (executeAgent utc_platform agent_A (timerCallback faulty_platform agent_A state_A))
   \<and> map a_status (agents (state_of (executeAgent utc_platform agent_A
                                         (timerCallback faulty_platform agent_A state_A)))) = [active]
   \<and> threw (executeAgent faulty_platform agent_A (state_A\<lparr>running := False\<rparr>))
   \<and> \<not> running (state_A\<lparr>running := False\<rparr>)
   \<and> timers (timerCallback faulty_platform agent_A (state_A\<lparr>running := False\<rparr>)) = []"
proof -
  have h1: "threw (executeAgent faulty_platform agent_A state_A)" using run_faulty by simp
  have h2: "\<not> fails faulty_platform (ops (state_of (executeAgent faulty_platform agent_A state_A)))"
    using run_faulty by (simp add: faulty_fails)
  have h3: "intervalSeconds agent_A \<noteq> 0" by (simp add: agent_A_fields)
  have k1: "threw (executeAgent faulty_platform agent_A (state_A\<lparr>running := False\<rparr>))"
    using run_faulty_stopped by simp
  have k2: "\<not> fails faulty_platform
               (ops (state_of (executeAgent faulty_platform agent_A (state_A\<lparr>running := False\<rparr>))))"
    using run_faulty_stopped by (simp add: faulty_fails)
  have next_ok: "\<not> threw (executeAgent utc_platform agent_A (timerCallback faulty_platform agent_A state_A))
     \<and> map a_status (agents (state_of (executeAgent utc_platform agent_A
                                         (timerCallback faulty_platform agent_A state_A)))) = [active]"
    by (simp add: run_simps utc_fails faulty_fails agent_A_fields state_A_fields)
  show ?thesis
    using failure_marks_error_and_backs_off[OF h1 h2 h3]
      failure_marks_error_and_backs_off[OF k1 k2 h3]
      h1 h2 h3 k1 cb_faulty next_ok
    by (simp add: state_A_fields agent_A_fields)
qed

text \<open>
  C7 as stated fails. With the store down, the first write of the cycle throws and so does the
  write of the \<open>catch\<close> block: the status stays \<open>active\<close>, no event is emitted and no timer is
  armed. And with the manager stopped (\<open>running\<close> false), a failed cycle marks the agent
  \<open>error\<close> but arms no timer.
\<close>

theorem failure_without_error_status_or_rearm:
  "threw (executeAgent dead_store_platform agent_A state_A) \<and> running state_A
   \<and> map a_status (agents (timerCallback dead_store_platform agent_A state_A)) = [active]
   \<and> broadcasts (timerCallback dead_store_platform agent_A state_A) = []
   \<and> timers (timerCallback dead_store_platform agent_A state_A) = []
   \<and> threw (executeAgent faulty_platform agent_A (state_A\<lparr>running := False\<rparr>))
   \<and> map a_status (agents (timerCallback faulty_platform agent_A (state_A\<lparr>running := False\<rparr>))) = [error]
   \<and> timers (timerCallback faulty_platform agent_A (state_A\<lparr>running := False\<rparr>)) = []"
proof -
  have "threw (executeAgent faulty_platform agent_A (state_A\<lparr>running := False\<rparr>))
   \<and> map a_status (agents (timerCallback faulty_platform agent_A (state_A\<lparr>running := False\<rparr>))) = [error]
   \<and> timers (timerCallback faulty_platform agent_A (state_A\<lparr>running := False\<rparr>)) = []"
    by (simp add: run_simps faulty_fails agent_A_fields state_A_fields)
  then show ?thesis using cb_dead by (simp add: state_A_fields)
qed

end
